theory Spec2Isabelle
  imports
    Complex_Main
    "HOL-Library.Char_ord"
    "HOL-Library.List_Lexorder"
    "HOL-Library.Sublist"
begin

section \<open>The tagger of nlp4py/tagger.py: data and operations\<close>

text \<open>
  The development follows \<^verbatim>\<open>src/nlp4py/tagger.py\<close> (class \<^verbatim>\<open>ASPTagger\<close>).
  Python strings are \<^typ>\<open>string\<close> (the words of the examples are ASCII), Python's
  non-negative integers (lengths, indices, counters) are \<^typ>\<open>nat\<close>, and every
  exception the code can raise is a value of \<^typ>\<open>'a + 'b\<close> with the error on the left.
\<close>

datatype error = IndexError | KeyError | ZeroDivisionError | ValueError | TypeError

subsection \<open>Slices\<close>

text \<open>
  \<^verbatim>\<open>xs[a:b]\<close> for non-negative \<^verbatim>\<open>a\<close>, \<^verbatim>\<open>b\<close>: Python clips both bounds to the
  length of the list and returns the empty list when \<^verbatim>\<open>b <= a\<close>.
\<close>

definition slice :: "nat \<Rightarrow> nat \<Rightarrow> 'a list \<Rightarrow> 'a list" where
  "slice a b xs = drop a (take b xs)"

subsection \<open>Errors in sequence\<close>

text \<open>
  An exception ends the computation: \<open>bind_err\<close> runs the rest only on a result, and
  \<open>sequence_err\<close> collects the results of a loop up to its first exception.
\<close>

definition bind_err :: "error + 'a \<Rightarrow> ('a \<Rightarrow> error + 'b) \<Rightarrow> error + 'b" where
  "bind_err r f = (case r of Inl e \<Rightarrow> Inl e | Inr a \<Rightarrow> f a)"

primrec sequence_err :: "(error + 'a) list \<Rightarrow> error + 'a list" where
  "sequence_err [] = Inr []"
| "sequence_err (r # rs) =
     bind_err r (\<lambda>a. bind_err (sequence_err rs) (\<lambda>as. Inr (a # as)))"

text \<open>\<^verbatim>\<open>xs[k]\<close> for \<^verbatim>\<open>k >= 0\<close>, and \<^verbatim>\<open>d[key]\<close> on a dictionary.\<close>

definition getitem :: "'a list \<Rightarrow> nat \<Rightarrow> error + 'a" where
  "getitem xs k = (if k < length xs then Inr (xs ! k) else Inl IndexError)"

definition lookup :: "('k \<rightharpoonup> 'v) \<Rightarrow> 'k \<Rightarrow> error + 'v" where
  "lookup d k = (case d k of None \<Rightarrow> Inl KeyError | Some v \<Rightarrow> Inr v)"

subsection \<open>Characters\<close>

text \<open>
  \<^verbatim>\<open>str.isupper\<close>, \<^verbatim>\<open>str.islower\<close>, \<^verbatim>\<open>str.isalpha\<close>, \<^verbatim>\<open>str.isdigit\<close> and
  \<^verbatim>\<open>str.lower\<close> on one character, for the ASCII range, where they need no table.
\<close>

definition isupper_c :: "char \<Rightarrow> bool" where
  "isupper_c c = (CHR ''A'' \<le> c \<and> c \<le> CHR ''Z'')"

definition islower_c :: "char \<Rightarrow> bool" where
  "islower_c c = (CHR ''a'' \<le> c \<and> c \<le> CHR ''z'')"

definition isalpha_c :: "char \<Rightarrow> bool" where
  "isalpha_c c = (isupper_c c \<or> islower_c c)"

definition isdigit_c :: "char \<Rightarrow> bool" where
  "isdigit_c c = (CHR ''0'' \<le> c \<and> c \<le> CHR ''9'')"

definition lower_c :: "char \<Rightarrow> char" where
  "lower_c c =
     (case map_of (zip ''ABCDEFGHIJKLMNOPQRSTUVWXYZ'' ''abcdefghijklmnopqrstuvwxyz'') c of
        Some l \<Rightarrow> l
      | None \<Rightarrow> c)"

text \<open>
  Outside ASCII Python decides \<^verbatim>\<open>c.isalpha()\<close>, \<^verbatim>\<open>c.isupper()\<close> and
  \<^verbatim>\<open>c.isdigit()\<close> from the Unicode database of its runtime. The database is not part
  of the source: the word shape takes the three tests as a table, and \<open>ascii_chars\<close> is
  the table of a runtime that knows the ASCII letters and digits only (it agrees with
  Python on every ASCII character).
\<close>

record chartab =
  c_isalpha :: "char \<Rightarrow> bool"
  c_isupper :: "char \<Rightarrow> bool"
  c_isdigit :: "char \<Rightarrow> bool"

definition ascii_chars :: chartab where
  "ascii_chars = \<lparr> c_isalpha = isalpha_c, c_isupper = isupper_c, c_isdigit = isdigit_c \<rparr>"

subsection \<open>Word shape (lines 317-343)\<close>

text \<open>Lines 327-335: the shape character of one character of the word.\<close>

definition shape_char :: "chartab \<Rightarrow> char \<Rightarrow> char" where
  "shape_char tab c =
     (if c_isalpha tab c then (if c_isupper tab c then CHR ''X'' else CHR ''x'')
      else if c_isdigit tab c then CHR ''d''
      else c)"

text \<open>
  Lines 326-342, the loop over the word. The loop variables are \<^verbatim>\<open>last\<close> (the empty
  string at first, here \<open>None\<close>) and \<^verbatim>\<open>seq\<close>; the result is what the loop appends to
  \<^verbatim>\<open>shape\<close>, in order.
\<close>

fun shape_loop :: "chartab \<Rightarrow> char option \<Rightarrow> nat \<Rightarrow> string \<Rightarrow> string" where
  "shape_loop tab last_c seq [] = []"
| "shape_loop tab last_c seq (c # cs) =
     (let sc = shape_char tab c;
          seq' = (if Some sc = last_c then seq + 1 else 0);
          last' = (if Some sc = last_c then last_c else Some sc)
      in (if seq' < 4 then [sc] else []) @ shape_loop tab last' seq' cs)"

text \<open>Lines 320-321 and 343.\<close>

definition word_shape :: "chartab \<Rightarrow> string \<Rightarrow> string" where
  "word_shape tab word =
     (if length word \<ge> 100 then ''LONG'' else shape_loop tab None 0 word)"

text \<open>
  For the statement of the run property: the maximal runs of equal neighbours of a list,
  in order (\<open>runs ''aabccc'' = [''aa'', ''b'', ''ccc'']\<close>).
\<close>

function runs :: "'a list \<Rightarrow> 'a list list" where
  "runs [] = []"
| "runs (x # xs) = (x # takeWhile ((=) x) xs) # runs (dropWhile ((=) x) xs)"
  by pat_completeness auto
termination
  by (relation "measure length") (auto simp: le_imp_less_Suc length_dropWhile_le)

subsection \<open>Strings\<close>

text \<open>\<^verbatim>\<open>w.lower()\<close>, and the tests of \<^verbatim>\<open>str\<close> that \<^verbatim>\<open>_word_flags\<close> calls.\<close>

definition lower :: "string \<Rightarrow> string" where
  "lower s = map lower_c s"

definition isalpha :: "string \<Rightarrow> bool" where
  "isalpha s = (s \<noteq> [] \<and> list_all isalpha_c s)"

definition isnumeric :: "string \<Rightarrow> bool" where
  "isnumeric s = (s \<noteq> [] \<and> list_all isdigit_c s)"

definition islower :: "string \<Rightarrow> bool" where
  "islower s = (list_ex islower_c s \<and> \<not> list_ex isupper_c s)"

definition isupper :: "string \<Rightarrow> bool" where
  "isupper s = (list_ex isupper_c s \<and> \<not> list_ex islower_c s)"

text \<open>
  \<^verbatim>\<open>str.istitle\<close>: an uppercase letter may only follow an uncased character, a lowercase
  letter only a cased one, and there is at least one cased character. The arguments are
  \<^verbatim>\<open>previous_is_cased\<close> and \<^verbatim>\<open>cased\<close> of the library's loop.
\<close>

fun istitle_loop :: "bool \<Rightarrow> bool \<Rightarrow> string \<Rightarrow> bool" where
  "istitle_loop prev cased [] = cased"
| "istitle_loop prev cased (c # cs) =
     (if isupper_c c then (if prev then False else istitle_loop True True cs)
      else if islower_c c then (if \<not> prev then False else istitle_loop True True cs)
      else istitle_loop False cased cs)"

definition istitle :: "string \<Rightarrow> bool" where
  "istitle s = istitle_loop False False s"

text \<open>\<^verbatim>\<open>"%d" % k\<close> and \<^verbatim>\<open>str(k)\<close> for an integer: its decimal digits.\<close>

definition digit_char :: "nat \<Rightarrow> char" where
  "digit_char d = ''0123456789'' ! d"

fun digits_nat :: "nat \<Rightarrow> string" where
  "digits_nat n =
     (if n < 10 then [digit_char n] else digits_nat (n div 10) @ [digit_char (n mod 10)])"

definition str_int :: "int \<Rightarrow> string" where
  "str_int k = (if k < 0 then CHR ''-'' # digits_nat (nat (- k)) else digits_nat (nat k))"

subsection \<open>The tagger (lines 24-78)\<close>

text \<open>
  The attributes of an \<^verbatim>\<open>ASPTagger\<close>. A compiled pattern stands for its test
  \<^verbatim>\<open>pattern.search(word)\<close> (is there a match in the word). \<open>latent_words\<close> is the list of
  lowercase words that \<^verbatim>\<open>functools.partial\<close> binds into \<^verbatim>\<open>self.latent_features\<close>.
  \<open>chars\<close> is the character table of the runtime that \<^verbatim>\<open>_word_shape\<close> consults.
  \<open>learner\<close> is the state of the superclass \<^verbatim>\<open>AveragedStructuredPerceptron\<close> (weights,
  target mapping and size), which is not part of the repository's source here.
\<close>

record 'l tagger =
  vocabulary :: "string set"
  lexicon :: "(string \<rightharpoonup> string list) option"
  mapping :: "(string \<rightharpoonup> string) option"
  brown_clusters :: "(string \<rightharpoonup> string \<times> int) option"
  word_to_vec :: "(string \<rightharpoonup> string) option"
  email :: "string \<Rightarrow> bool"
  xmltag :: "string \<Rightarrow> bool"
  url :: "string \<Rightarrow> bool"
  mention :: "string \<Rightarrow> bool"
  hashtag :: "string \<Rightarrow> bool"
  action_word :: "string \<Rightarrow> bool"
  punctuation :: "string \<Rightarrow> bool"
  ordinal :: "string \<Rightarrow> bool"
  number :: "string \<Rightarrow> bool"
  emoticon :: "string \<Rightarrow> bool"
  emoji :: "string \<Rightarrow> bool"
  latent_words :: "string list option"
  chars :: chartab
  learner :: 'l

text \<open>Lines 36-38: the two boundary tags are entered into a configured mapping.\<close>

definition init_mapping :: "(string \<rightharpoonup> string) option \<Rightarrow> (string \<rightharpoonup> string) option" where
  "init_mapping m =
     map_option (\<lambda>d. d(''<START-2>'' \<mapsto> ''<START>'', ''<START-1>'' \<mapsto> ''<START>'')) m"

subsection \<open>Word flags (lines 345-381)\<close>

definition flag :: "bool \<Rightarrow> string \<Rightarrow> string \<Rightarrow> string list" where
  "flag b pre name = (if b then [pre @ name] else [])"

definition word_flags :: "'l tagger \<Rightarrow> string \<Rightarrow> string \<Rightarrow> string list" where
  "word_flags t word pre =
     flag (isalpha word) pre ''_isalpha''
     @ flag (isnumeric word) pre ''_isnumeric''
     @ flag (islower word) pre ''_islower''
     @ flag (isupper word) pre ''_isupper''
     @ flag (istitle word) pre ''_istitle''
     @ flag (email t word) pre ''_isemail''
     @ flag (xmltag t word) pre ''_istag''
     @ flag (url t word) pre ''_isurl''
     @ flag (mention t word) pre ''_ismention''
     @ flag (hashtag t word) pre ''_ishashtag''
     @ flag (action_word t word) pre ''_isactword''
     @ flag (emoticon t word) pre ''_isemoticon''
     @ flag (emoji t word) pre ''_isemoji''
     @ flag (punctuation t word) pre ''_ispunct''
     @ flag (ordinal t word) pre ''_isordinal''
     @ flag (number t word) pre ''_isnumber''"

subsection \<open>Static features (lines 211-289)\<close>

text \<open>
  \<^verbatim>\<open>round(math.log(n))\<close>. \<^verbatim>\<open>math.log(0)\<close> raises \<^verbatim>\<open>ValueError\<close>. For \<open>n > 0\<close> the
  logarithm of \<open>n\<close> is never half an integer, so rounding half up and Python's rounding
  half to even agree.
\<close>

definition round_log :: "nat \<Rightarrow> error + int" where
  "round_log n = (if n = 0 then Inl ValueError else Inr (round (ln (real n))))"

text \<open>\<^verbatim>\<open>w[-3:]\<close>: the last three characters (all of a shorter word).\<close>

definition suffix3 :: "string \<Rightarrow> string" where
  "suffix3 w = drop (length w - 3) w"

text \<open>\<^verbatim>\<open>brown_clusters.get(w, ("N/A", 0))\<close>.\<close>

definition brown_get :: "(string \<rightharpoonup> string \<times> int) \<Rightarrow> string \<Rightarrow> string \<times> int" where
  "brown_get bc w = (case bc w of None \<Rightarrow> (''N/A'', 0) | Some p \<Rightarrow> p)"

text \<open>
  Lines 230-287, the features of one token: \<open>word\<close> is the token as written,
  \<open>w\<close>, \<open>p1\<close>, \<open>p2\<close>, \<open>n1\<close>, \<open>n2\<close> are the lowercase token and its neighbours in the
  padded sentence, \<open>i\<close> is the index of the token in its sentence and \<open>slen\<close> is the loop
  variable \<^verbatim>\<open>length\<close>, the declared length of the sentence. The only step that can
  raise is the logarithm of the length of the word.
\<close>

definition local_features ::
  "'l tagger \<Rightarrow> nat \<Rightarrow> nat \<Rightarrow> string \<Rightarrow> string \<Rightarrow> string \<Rightarrow> string \<Rightarrow> string \<Rightarrow> string
     \<Rightarrow> error + string list" where
  "local_features t slen i word w p1 p2 n1 n2 =
     bind_err (round_log (length word)) (\<lambda>loglength. Inr (
           [''bias'',
            ''W_loglength: '' @ str_int loglength,
            ''W_word: '' @ w,
            ''N1_word: '' @ n1,
            ''N2_word: '' @ n2,
            ''W_prefix: '' @ take 3 w,
            ''W_suffix: '' @ suffix3 w]
           @ (if i \<ge> 1 then [''P1_suffix: '' @ suffix3 p1] else [])
           @ (if slen - i > 1 then [''N1_suffix: '' @ suffix3 n1] else [])
           @ [''W_shape: '' @ word_shape (chars t) word]
           @ (if i \<ge> 2 then word_flags t p2 ''P2'' else [])
           @ (if i \<ge> 1 then word_flags t p1 ''P1'' else [])
           @ word_flags t w ''W''
           @ (if slen - i > 1 then word_flags t n1 ''N1'' else [])
           @ (if slen - i > 2 then word_flags t n2 ''N2'' else [])
           @ (case brown_clusters t of
                None \<Rightarrow> []
              | Some bc \<Rightarrow>
                  (if i \<ge> 2 then [''P2_brown: '' @ fst (brown_get bc p2)] else [])
                  @ (if i \<ge> 1 then [''P1_brown: '' @ fst (brown_get bc p1)] else [])
                  @ [''W_brown: '' @ fst (brown_get bc w),
                     ''W_logfreq: '' @ str_int (snd (brown_get bc w))]
                  @ (if slen - i > 1 then [''N1_brown: '' @ fst (brown_get bc n1)] else [])
                  @ (if slen - i > 2 then [''N2_brown: '' @ fst (brown_get bc n2)] else []))
           @ (case word_to_vec t of
                None \<Rightarrow> []
              | Some w2v \<Rightarrow> (case w2v w of None \<Rightarrow> [] | Some v \<Rightarrow> [''W_w2v: '' @ v]))
           @ (case lexicon t of
                None \<Rightarrow> []
              | Some lexi \<Rightarrow>
                  (case lexi w of
                     Some feats \<Rightarrow> map (\<lambda>feat. ''W_lex: '' @ feat) feats
                   | None \<Rightarrow> [''W_lex: N/A'']))))"

text \<open>
  Lines 221-229: the padded lowercase sentence and the window of the token at index
  \<open>i\<close>.
\<close>

definition token_features :: "'l tagger \<Rightarrow> nat \<Rightarrow> string list \<Rightarrow> nat \<Rightarrow> error + string list" where
  "token_features t slen sentence i =
     (let tokens = [''<START-2>'', ''<START-1>''] @ map lower sentence @ [''<END+1>'', ''<END+2>''];
          word = sentence ! i;
          j = i + 2;
          w = tokens ! j;
          p1 = tokens ! (j - 1);
          p2 = tokens ! (j - 2);
          n1 = tokens ! (j + 1);
          n2 = tokens ! (j + 2)
      in local_features t slen i word w p1 p2 n1 n2)"

text \<open>Lines 222-288: the inner loop over \<^verbatim>\<open>enumerate(sentence)\<close>.\<close>

definition sentence_features :: "'l tagger \<Rightarrow> nat \<Rightarrow> string list \<Rightarrow> error + string list list" where
  "sentence_features t slen sentence =
     sequence_err (map (token_features t slen sentence) [0..<length sentence])"

text \<open>
  Lines 217-220 and 289: the outer loop over \<^verbatim>\<open>lengths\<close>, with the running \<^verbatim>\<open>start\<close>;
  the sentence is the slice \<^verbatim>\<open>words[start:start + length]\<close>.
\<close>

fun static_loop :: "'l tagger \<Rightarrow> string list \<Rightarrow> nat \<Rightarrow> nat list \<Rightarrow> error + string list list" where
  "static_loop t words start [] = Inr []"
| "static_loop t words start (slen # lengths) =
     bind_err (sentence_features t slen (slice start (start + slen) words)) (\<lambda>fs.
     bind_err (static_loop t words (start + slen) lengths) (\<lambda>rest.
     Inr (fs @ rest)))"

definition get_static_features :: "'l tagger \<Rightarrow> string list \<Rightarrow> nat list \<Rightarrow> error + string list list" where
  "get_static_features t words lengths = static_loop t words 0 lengths"

subsection \<open>Latent features (lines 291-315)\<close>

text \<open>
  \<open>words\<close> is the list of lowercase words bound into the callback. Every subscript is
  written in the order in which Python evaluates it: \<^verbatim>\<open>words[...]\<close> and \<^verbatim>\<open>tags[...]\<close>
  raise \<^verbatim>\<open>IndexError\<close> out of range, \<^verbatim>\<open>mapping[...]\<close> raises \<^verbatim>\<open>KeyError\<close> on a tag
  that is not a key. With \<open>i \<ge> 1\<close> the index \<^verbatim>\<open>global_i - 1\<close> is not negative, and
  likewise \<^verbatim>\<open>global_i - 2\<close> with \<open>i \<ge> 2\<close>.
\<close>

definition get_latent_features ::
  "'l tagger \<Rightarrow> string list \<Rightarrow> nat \<Rightarrow> string list \<Rightarrow> nat \<Rightarrow> error + string list" where
  "get_latent_features t words start beam i =
     (let global_i = start + i;
          tags = [''<START-2>'', ''<START-1>''] @ beam;
          j = i + 2
      in
      bind_err
        (if i \<ge> 1 then
           bind_err (getitem words (global_i - 1)) (\<lambda>pw.
           bind_err (getitem tags (j - 1)) (\<lambda>pt.
           bind_err
             (case mapping t of
                None \<Rightarrow> Inr []
              | Some m \<Rightarrow>
                  bind_err (lookup m pt) (\<lambda>wc. Inr [''P1_word, P1_wc: '' @ pw @ '', '' @ wc]))
             (\<lambda>fs. Inr ([''P1_word, P1_pos: '' @ pw @ '', '' @ pt] @ fs))))
         else Inr [])
        (\<lambda>f1.
      bind_err
        (if i \<ge> 2 then
           bind_err (getitem words (global_i - 2)) (\<lambda>pw.
           bind_err (getitem tags (j - 2)) (\<lambda>pt.
           bind_err
             (case mapping t of
                None \<Rightarrow> Inr []
              | Some m \<Rightarrow>
                  bind_err (lookup m pt) (\<lambda>wc. Inr [''P2_word, P2_wc: '' @ pw @ '', '' @ wc]))
             (\<lambda>fs. Inr ([''P2_word, P2_pos: '' @ pw @ '', '' @ pt] @ fs))))
         else Inr [])
        (\<lambda>f2.
      bind_err (getitem tags (j - 1)) (\<lambda>t1.
      bind_err (getitem tags (j - 2)) (\<lambda>t2.
      bind_err (getitem words global_i) (\<lambda>w.
      bind_err
        (case mapping t of
           None \<Rightarrow> Inr []
         | Some m \<Rightarrow>
             bind_err (lookup m t1) (\<lambda>c1.
             bind_err (lookup m t2) (\<lambda>c2.
             Inr [''P1_wc: '' @ c1,
                  ''P2_wc: '' @ c2,
                  ''P2_wc, P1_wc: '' @ c2 @ '', '' @ c1,
                  ''P1_wc, W_word: '' @ c1 @ '', '' @ w])))
        (\<lambda>f3.
      Inr (f1 @ f2
           @ [''P1_pos: '' @ t1,
              ''P2_pos: '' @ t2,
              ''P2_pos, P1_pos: '' @ t2 @ '', '' @ t1,
              ''P1_pos, W_word: '' @ t1 @ '', '' @ w]
           @ f3))))))))"

subsection \<open>Training, tagging and evaluation (lines 80-133)\<close>

text \<open>
  The superclass's \<^verbatim>\<open>fit\<close> and \<^verbatim>\<open>predict\<close> are parameters: \<open>fit\<close> returns the new
  state of the learner, \<open>predict\<close> the tag sequences, one per sentence. Each operation
  returns its result (or the exception) together with the tagger as the call leaves it.
\<close>

definition train ::
  "('l tagger \<Rightarrow> string list list \<Rightarrow> string list \<Rightarrow> nat list \<Rightarrow> 'l)
     \<Rightarrow> 'l tagger \<Rightarrow> string list \<Rightarrow> string list \<Rightarrow> nat list \<Rightarrow> (error + unit) \<times> 'l tagger" where
  "train fit t words tags lengths =
     (let t1 = t\<lparr>vocabulary := vocabulary t \<union> set words\<rparr>;
          t2 = t1\<lparr>latent_words := Some (map lower words)\<rparr>
      in case get_static_features t2 words lengths of
           Inl e \<Rightarrow> (Inl e, t2)
         | Inr X \<Rightarrow> (Inr (), t2\<lparr>learner := fit t2 X tags lengths\<rparr>))"

text \<open>
  Lines 92-96 of \<^verbatim>\<open>tag\<close>: the pairs (word, tag) of each sentence. \<^verbatim>\<open>tag\<close> is a
  generator; the model is the generator run to its end.
\<close>

fun tag_loop :: "string list \<Rightarrow> nat \<Rightarrow> (nat \<times> string list) list \<Rightarrow> (string \<times> string) list list" where
  "tag_loop words start [] = []"
| "tag_loop words start ((slen, local_tags) # rest) =
     zip (slice start (start + slen) words) local_tags # tag_loop words (start + slen) rest"

definition tag ::
  "('l tagger \<Rightarrow> string list list \<Rightarrow> nat list \<Rightarrow> string list list)
     \<Rightarrow> 'l tagger \<Rightarrow> string list \<Rightarrow> nat list
     \<Rightarrow> (error + (string \<times> string) list list) \<times> 'l tagger" where
  "tag predict t words lengths =
     (let t' = t\<lparr>latent_words := Some (map lower words)\<rparr>
      in (bind_err (get_static_features t' words lengths) (\<lambda>X.
            Inr (tag_loop words 0 (zip lengths (predict t' X lengths)))),
          t'))"

text \<open>The six counters of \<^verbatim>\<open>evaluate\<close> (lines 105-106).\<close>

record counts =
  correct :: nat
  correct_iv :: nat
  correct_oov :: nat
  total :: nat
  total_iv :: nat
  total_oov :: nat

text \<open>Lines 113-123: one token (word, gold tag, predicted tag).\<close>

definition count_token :: "string set \<Rightarrow> string \<times> string \<times> string \<Rightarrow> counts \<Rightarrow> counts" where
  "count_token voc wgp c =
     (case wgp of (w, g, p) \<Rightarrow>
        let c1 = c\<lparr>total := total c + 1\<rparr> in
        if w \<in> voc then
          let c2 = c1\<lparr>total_iv := total_iv c1 + 1\<rparr> in
          if g = p then c2\<lparr>correct := correct c2 + 1, correct_iv := correct_iv c2 + 1\<rparr> else c2
        else
          let c2 = c1\<lparr>total_oov := total_oov c1 + 1\<rparr> in
          if g = p then c2\<lparr>correct := correct c2 + 1, correct_oov := correct_oov c2 + 1\<rparr> else c2)"

text \<open>
  Lines 108-123: the loop over \<^verbatim>\<open>zip(lengths, predicted)\<close>, and in it the loop over
  \<^verbatim>\<open>zip(local_words, local_gold, local_pred)\<close>.
\<close>

fun evaluate_loop ::
  "string set \<Rightarrow> string list \<Rightarrow> string list \<Rightarrow> nat \<Rightarrow> (nat \<times> string list) list \<Rightarrow> counts \<Rightarrow> counts" where
  "evaluate_loop voc words tags start [] c = c"
| "evaluate_loop voc words tags start ((slen, local_pred) # rest) c =
     (let local_words = slice start (start + slen) words;
          local_gold = slice start (start + slen) tags
      in evaluate_loop voc words tags (start + slen) rest
           (foldl (\<lambda>c' wgp. count_token voc wgp c') c (zip local_words (zip local_gold local_pred))))"

text \<open>
  \<^verbatim>\<open>a / b\<close> on integers raises \<^verbatim>\<open>ZeroDivisionError\<close> when \<^verbatim>\<open>b\<close> is 0; the quotient
  is taken as the exact one. \<open>or_zero\<close> is
  \<^verbatim>\<open>try: ... except ZeroDivisionError: ... = 0\<close>.
\<close>

definition truediv :: "nat \<Rightarrow> nat \<Rightarrow> error + real" where
  "truediv a b = (if b = 0 then Inl ZeroDivisionError else Inr (real a / real b))"

definition or_zero :: "error + real \<Rightarrow> error + real" where
  "or_zero r = (case r of Inl ZeroDivisionError \<Rightarrow> Inr 0 | Inl e \<Rightarrow> Inl e | Inr a \<Rightarrow> Inr a)"

text \<open>Lines 124-133.\<close>

definition accuracies :: "counts \<Rightarrow> error + real \<times> real \<times> real" where
  "accuracies c =
     bind_err (truediv (correct c) (total c)) (\<lambda>accuracy.
     bind_err (or_zero (truediv (correct_iv c) (total_iv c))) (\<lambda>accuracy_iv.
     bind_err (or_zero (truediv (correct_oov c) (total_oov c))) (\<lambda>accuracy_oov.
     Inr (accuracy, accuracy_iv, accuracy_oov))))"

definition evaluate ::
  "('l tagger \<Rightarrow> string list list \<Rightarrow> nat list \<Rightarrow> string list list)
     \<Rightarrow> 'l tagger \<Rightarrow> string list \<Rightarrow> string list \<Rightarrow> nat list
     \<Rightarrow> (error + real \<times> real \<times> real) \<times> 'l tagger" where
  "evaluate predict t words tags lengths =
     (let t' = t\<lparr>latent_words := Some (map lower words)\<rparr>
      in (bind_err (get_static_features t' words lengths) (\<lambda>X.
            accuracies
              (evaluate_loop (vocabulary t') words tags 0 (zip lengths (predict t' X lengths))
                 \<lparr>correct = 0, correct_iv = 0, correct_oov = 0,
                  total = 0, total_iv = 0, total_oov = 0\<rparr>)),
          t'))"

subsection \<open>Cross-validation: the folds (lines 135-148 and 189-201)\<close>

text \<open>\<^verbatim>\<open>itertools.accumulate(lengths)\<close>: the running totals.\<close>

primrec accumulate_from :: "nat \<Rightarrow> nat list \<Rightarrow> nat list" where
  "accumulate_from t [] = []"
| "accumulate_from t (x # xs) = (t + x) # accumulate_from (t + x) xs"

definition accumulate :: "nat list \<Rightarrow> nat list" where
  "accumulate xs = accumulate_from 0 xs"

text \<open>
  Line 137: \<^verbatim>\<open>list(zip((a - b for a, b in zip(accumulate(lengths), lengths)), lengths))\<close>,
  the pairs (start offset, length) of the sentences.
\<close>

definition sentence_ranges :: "nat list \<Rightarrow> (nat \<times> nat) list" where
  "sentence_ranges lengths =
     zip (map (\<lambda>(a, b). a - b) (zip (accumulate lengths) lengths)) lengths"

text \<open>
  Lines 191 and 194: the slice
  \<^verbatim>\<open>[i * div + min(i, mod):(i + 1) * div + min(i + 1, mod)]\<close> that fold \<^verbatim>\<open>i\<close> takes of
  \<^verbatim>\<open>sentence_ranges\<close> and of \<^verbatim>\<open>lengths\<close>.
\<close>

definition fold_slice :: "nat \<Rightarrow> nat \<Rightarrow> nat \<Rightarrow> 'a list \<Rightarrow> 'a list" where
  "fold_slice i d m xs = slice (i * d + min i m) ((i + 1) * d + min (i + 1) m) xs"

text \<open>
  The data a fold works on. \<^verbatim>\<open>_cross_val_iteration\<close> computes these and hands them to
  the external learner (\<^verbatim>\<open>fit\<close>, \<^verbatim>\<open>score\<close>), which is not part of this file.
\<close>

record ('w, 'x, 'y) cv_split =
  test_lengths :: "nat list"
  train_lengths :: "nat list"
  test_words :: "'w list"
  test_X :: "'x list"
  test_y :: "'y list"
  train_words :: "'w list"
  train_X :: "'x list"
  train_y :: "'y list"

text \<open>
  Lines 191-201. \<^verbatim>\<open>test_ranges[0]\<close> and \<^verbatim>\<open>test_ranges[-1]\<close> raise
  \<^verbatim>\<open>IndexError\<close> on an empty fold.
\<close>

definition cross_val_split ::
  "nat \<Rightarrow> 'w list \<Rightarrow> 'x list \<Rightarrow> 'y list \<Rightarrow> nat list \<Rightarrow> (nat \<times> nat) list \<Rightarrow> nat \<Rightarrow> nat
     \<Rightarrow> error + ('w, 'x, 'y) cv_split" where
  "cross_val_split i words X y lengths ranges d m =
     (let test_ranges = fold_slice i d m ranges in
      if test_ranges = [] then Inl IndexError
      else
        let test_start = fst (hd test_ranges);
            test_end = fst (last test_ranges) + snd (last test_ranges)
        in Inr \<lparr> test_lengths = fold_slice i d m lengths,
                 train_lengths = take (i * d + min i m) lengths
                                   @ drop ((i + 1) * d + min (i + 1) m) lengths,
                 test_words = slice test_start test_end words,
                 test_X = slice test_start test_end X,
                 test_y = slice test_start test_end y,
                 train_words = take test_start words @ drop test_end words,
                 train_X = take test_start X @ drop test_end X,
                 train_y = take test_start y @ drop test_end y \<rparr>)"

text \<open>
  Lines 137-146 of \<^verbatim>\<open>crossvalidate\<close>: the sentence ranges, the static features
  (which can raise), \<^verbatim>\<open>div, mod = divmod(len(sentence_ranges), 10)\<close> and one job per
  \<^verbatim>\<open>i\<close> in \<^verbatim>\<open>range(10)\<close>. \<^verbatim>\<open>pool.map\<close> raises again what a job raised, so the
  result is the exception of a job or the data of all ten jobs. What the external learner
  makes of the data (\<^verbatim>\<open>fit\<close>, \<^verbatim>\<open>score\<close>, and the mean and deviation of the ten
  accuracies) is not part of this file.
\<close>

definition crossvalidate_splits ::
  "'l tagger \<Rightarrow> string list \<Rightarrow> 'y list \<Rightarrow> nat list
     \<Rightarrow> error + (string, string list, 'y) cv_split list" where
  "crossvalidate_splits t words tags lengths =
     (let ranges = sentence_ranges lengths in
      bind_err (get_static_features t words lengths) (\<lambda>X.
        let d = length ranges div 10;
            m = length ranges mod 10
        in sequence_err (map (\<lambda>i. cross_val_split i words X tags lengths ranges d m) [0..<10])))"

subsection \<open>Concrete instances\<close>

text \<open>
  For the examples: a learner whose \<^verbatim>\<open>predict\<close> returns the given tag sequences, and
  a tagger with no resources configured. Its patterns are given as an argument (the
  patterns of \<^verbatim>\<open>__init__\<close> other than \<open>email\<close> and \<open>url\<close> are not modelled);
  \<open>no_match\<close> is a pattern that matches no word.
\<close>

definition no_match :: "string \<Rightarrow> bool" where
  "no_match w = False"

definition predict_const ::
  "string list list \<Rightarrow> 'l tagger \<Rightarrow> string list list \<Rightarrow> nat list \<Rightarrow> string list list" where
  "predict_const ps t X lengths = ps"

definition bare_tagger :: "(string \<Rightarrow> bool) \<Rightarrow> (string \<rightharpoonup> string) option \<Rightarrow> unit tagger" where
  "bare_tagger pat m =
     \<lparr> vocabulary = {}, lexicon = None, mapping = init_mapping m, brown_clusters = None,
       word_to_vec = None, email = pat, xmltag = pat, url = pat, mention = pat,
       hashtag = pat, action_word = pat, punctuation = pat, ordinal = pat, number = pat,
       emoticon = pat, emoji = pat, latent_words = None, chars = ascii_chars,
       learner = () \<rparr>"

subsection \<open>Patterns (lines 39 and 41)\<close>

text \<open>
  A pattern as Python's \<^verbatim>\<open>re\<close> module parses it. \<open>In\<close> is a bracket expression, its
  members single characters or the class \<^verbatim>\<open>\w\<close>; \<open>Bol\<close> and \<open>Eol\<close> are \<^verbatim>\<open>^\<close> and
  \<^verbatim>\<open>$\<close>, \<open>Dot\<close> is \<^verbatim>\<open>.\<close>. Neither of the two patterns modelled here has a group
  reference or a look-around, so whether a match exists depends only on the positions
  where the parts of the pattern can end.
\<close>

datatype cset = Chr char | Word_class

datatype regex =
  Eps | Bol | Eol | Dot | In "cset list"
  | Seq regex regex | Alt regex regex | Star regex

definition Lit :: "char \<Rightarrow> regex" where
  "Lit c = In [Chr c]"

definition Plus :: "regex \<Rightarrow> regex" where
  "Plus r = Seq r (Star r)"

definition Opt :: "regex \<Rightarrow> regex" where
  "Opt r = Alt r Eps"

definition seqs :: "regex list \<Rightarrow> regex" where
  "seqs rs = foldr Seq rs Eps"

definition lits :: "string \<Rightarrow> regex" where
  "lits s = seqs (map Lit s)"

fun alts :: "regex list \<Rightarrow> regex" where
  "alts [] = Eps"
| "alts [r] = r"
| "alts (r # rs) = Alt r (alts rs)"

text \<open>\<^verbatim>\<open>\w\<close> on ASCII: a letter, a digit or the underscore.\<close>

definition isword_c :: "char \<Rightarrow> bool" where
  "isword_c c = (isalpha_c c \<or> isdigit_c c \<or> c = CHR ''_'')"

text \<open>
  Does the character belong to a member of a bracket expression; \<open>icase\<close> is the flag
  \<^verbatim>\<open>re.IGNORECASE\<close>.
\<close>

fun in_cset :: "bool \<Rightarrow> char \<Rightarrow> cset \<Rightarrow> bool" where
  "in_cset icase c (Chr d) = (if icase then lower_c c = lower_c d else c = d)"
| "in_cset icase c Word_class = isword_c c"

text \<open>
  The positions reachable from those of \<open>acc\<close> by repeating \<open>step\<close>; every round adds a
  new position or stops, so as many rounds as there are positions suffice.
\<close>

fun star_close :: "nat \<Rightarrow> (nat \<Rightarrow> nat list) \<Rightarrow> nat list \<Rightarrow> nat list" where
  "star_close 0 step acc = acc"
| "star_close (Suc n) step acc =
     (let new = remdups (filter (\<lambda>j. j \<notin> set acc) (concat (map step acc)))
      in if new = [] then acc else star_close n step (acc @ new))"

text \<open>
  \<open>ends icase r w i\<close>: the positions of \<open>w\<close> at which a match of \<open>r\<close> that starts at
  position \<open>i\<close> can end. \<^verbatim>\<open>$\<close> matches at the end of the word and before a newline
  that ends it; \<^verbatim>\<open>.\<close> matches any character but the newline.
\<close>

fun ends :: "bool \<Rightarrow> regex \<Rightarrow> string \<Rightarrow> nat \<Rightarrow> nat list" where
  "ends icase Eps w i = [i]"
| "ends icase Bol w i = (if i = 0 then [i] else [])"
| "ends icase Eol w i =
     (if i = length w \<or> (i + 1 = length w \<and> w ! i = CHR 0x0A) then [i] else [])"
| "ends icase Dot w i = (if i < length w \<and> w ! i \<noteq> CHR 0x0A then [i + 1] else [])"
| "ends icase (In cs) w i =
     (if i < length w \<and> list_ex (in_cset icase (w ! i)) cs then [i + 1] else [])"
| "ends icase (Seq r s) w i = remdups (concat (map (ends icase s w) (ends icase r w i)))"
| "ends icase (Alt r s) w i = remdups (ends icase r w i @ ends icase s w i)"
| "ends icase (Star r) w i = star_close (Suc (length w)) (\<lambda>j. ends icase r w j) [i]"

text \<open>\<^verbatim>\<open>pattern.search(w)\<close> finds a match: one starts at some position of \<open>w\<close>.\<close>

definition search :: "bool \<Rightarrow> regex \<Rightarrow> string \<Rightarrow> bool" where
  "search icase r w = list_ex (\<lambda>i. ends icase r w i \<noteq> []) [0..<Suc (length w)]"

text \<open>
  Line 39, \<^verbatim>\<open>self.email\<close>, compiled with \<^verbatim>\<open>re.IGNORECASE\<close>:
  \<^verbatim>\<open>^[[:alnum:].%+-]+(?:@| \[?at\]? )[[:alnum:].-]+(?:\.| \[?dot\]? )[[:alpha:]]{2,}$\<close>.
  The module \<^verbatim>\<open>re\<close> has no POSIX classes: it reads \<^verbatim>\<open>[[:alnum:]\<close> as the set of the
  characters \<^verbatim>\<open>[ : a l n u m\<close>, closed by the first \<^verbatim>\<open>]\<close>, and what follows as
  \<^verbatim>\<open>.\<close> (any character), \<^verbatim>\<open>%+\<close>, \<^verbatim>\<open>-\<close> and \<^verbatim>\<open>]+\<close>; likewise
  \<^verbatim>\<open>[[:alnum:].-]+\<close> is the set, \<^verbatim>\<open>.\<close>, \<^verbatim>\<open>-\<close>, \<^verbatim>\<open>]+\<close>, and
  \<^verbatim>\<open>[[:alpha:]]{2,}\<close> is the set of \<^verbatim>\<open>[ : a l p h\<close> followed by two or more \<^verbatim>\<open>]\<close>.
\<close>

definition email_re :: regex where
  "email_re = seqs
     [Bol,
      In (map Chr ''[:alnum:''), Dot, Plus (Lit CHR ''%''), Lit CHR ''-'', Plus (Lit CHR '']''),
      Alt (Lit CHR ''@'')
          (seqs [Lit CHR '' '', Opt (Lit CHR ''[''), lits ''at'', Opt (Lit CHR '']''), Lit CHR '' '']),
      In (map Chr ''[:alnum:''), Dot, Lit CHR ''-'', Plus (Lit CHR '']''),
      Alt (Lit CHR ''.'')
          (seqs [Lit CHR '' '', Opt (Lit CHR ''[''), lits ''dot'', Opt (Lit CHR '']''), Lit CHR '' '']),
      In (map Chr ''[:alpha:''), Lit CHR '']'', Plus (Lit CHR '']''),
      Eol]"

text \<open>
  Line 41, \<^verbatim>\<open>self.url\<close>, compiled with \<^verbatim>\<open>re.IGNORECASE\<close>:
  \<^verbatim>\<open>^(?:(?:(?:https?|ftp|svn)://|(?:https?://)?www\.).+)|(?:[\w./-]+\.(?:de|com|org|net|edu|info|jpg|png|gif|log|txt)(?:-\w+)?)$\<close>.
  The alternation \<^verbatim>\<open>|\<close> at the top binds weaker than the anchors: \<^verbatim>\<open>^\<close> belongs to the
  first alternative only and \<^verbatim>\<open>$\<close> to the second only.
\<close>

definition url_re :: regex where
  "url_re =
     Alt (seqs [Bol,
                Alt (Seq (alts [Seq (lits ''http'') (Opt (Lit CHR ''s'')), lits ''ftp'', lits ''svn''])
                         (lits ''://''))
                    (Seq (Opt (seqs [lits ''http'', Opt (Lit CHR ''s''), lits ''://'']))
                         (lits ''www.'')),
                Plus Dot])
         (seqs [Plus (In [Word_class, Chr CHR ''.'', Chr CHR ''/'', Chr CHR ''-'']),
                Lit CHR ''.'',
                alts (map lits [''de'', ''com'', ''org'', ''net'', ''edu'', ''info'', ''jpg'',
                                ''png'', ''gif'', ''log'', ''txt'']),
                Opt (Seq (Lit CHR ''-'') (Plus (In [Word_class]))),
                Eol])"

subsection \<open>Saving the model (lines 150-179)\<close>

text \<open>
  The file is written piece by piece, so it is modelled by the text written so far. A
  step of \<^verbatim>\<open>save\<close> is the text of one \<^verbatim>\<open>f.write\<close>, or the exception raised while
  that text is computed; \<open>write_all\<close> runs the steps in order and stops at the first
  exception, leaving in the file what the steps before it wrote.
\<close>

fun write_all :: "(error + string) list \<Rightarrow> (error + unit) \<times> string" where
  "write_all [] = (Inr (), [])"
| "write_all (Inl e # steps) = (Inl e, [])"
| "write_all (Inr s # steps) = (fst (write_all steps), s @ snd (write_all steps))"

text \<open>
  The functions of the libraries that \<^verbatim>\<open>save\<close> calls are parameters: \<open>json_text v\<close> is
  \<^verbatim>\<open>json.dumps(v, ensure_ascii=False, indent=4).encode()\<close>, which raises on a value
  that JSON cannot hold, \<open>json_names\<close> is the same function on a list of strings,
  \<open>str_text v\<close> is \<^verbatim>\<open>str(v).encode()\<close> and \<open>b85_text a\<close> is
  \<^verbatim>\<open>base64.b85encode(a.tostring())\<close> for an array \<open>a\<close>. The values that these functions
  take have the type \<open>'v\<close>, the arrays the type \<open>'a\<close>.
\<close>

record ('v, 'a) library =
  json_text :: "'v \<Rightarrow> error + string"
  json_names :: "string list \<Rightarrow> error + string"
  str_text :: "'v \<Rightarrow> string"
  b85_text :: "'a \<Rightarrow> string"

text \<open>
  The attributes that \<^verbatim>\<open>save\<close> reads. \<open>m_vocabulary\<close> is the value of
  \<^verbatim>\<open>list(self.vocabulary)\<close>; \<open>m_weights\<close> is the dictionary \<^verbatim>\<open>self.weights\<close> as the list
  of its items (feature name, array).
\<close>

record ('v, 'a) model =
  m_vocabulary :: 'v
  m_lexicon :: 'v
  m_mapping :: 'v
  m_brown_clusters :: 'v
  m_word_to_vec :: 'v
  m_target_mapping :: 'v
  m_target_size :: 'v
  m_weights :: "(string \<times> 'a) list"

text \<open>The line feed and the double quote.\<close>

definition nl :: string where
  "nl = [CHR 0x0A]"

definition quote :: string where
  "quote = [CHR 0x22]"

text \<open>\<^verbatim>\<open>xs[-1]\<close> raises \<^verbatim>\<open>IndexError\<close> on the empty list.\<close>

definition last_item :: "'a list \<Rightarrow> error + 'a" where
  "last_item xs = (if xs = [] then Inl IndexError else Inr (last xs))"

text \<open>Lines 153-170: the eight values and the opening bracket of the list of weights.\<close>

definition save_header :: "('v, 'a) library \<Rightarrow> ('v, 'a) model \<Rightarrow> string list \<Rightarrow> (error + string) list" where
  "save_header lib m features =
     [Inr (''['' @ nl),
      json_text lib (m_vocabulary m),
      Inr ('','' @ nl),
      json_text lib (m_lexicon m),
      Inr ('','' @ nl),
      json_text lib (m_mapping m),
      Inr ('','' @ nl),
      json_text lib (m_brown_clusters m),
      Inr ('','' @ nl),
      json_text lib (m_word_to_vec m),
      Inr ('','' @ nl),
      json_text lib (m_target_mapping m),
      Inr ('','' @ nl),
      Inr (str_text lib (m_target_size m)),
      Inr ('','' @ nl),
      json_names lib features,
      Inr ('','' @ nl),
      Inr (''['' @ nl)]"

text \<open>
  Lines 174 and 177: \<^verbatim>\<open>base64.b85encode(self.weights[feat].tostring())\<close>.
\<close>

definition weight_text :: "('v, 'a) library \<Rightarrow> ('v, 'a) model \<Rightarrow> string \<Rightarrow> error + string" where
  "weight_text lib m feat =
     bind_err (lookup (map_of (m_weights m)) feat) (\<lambda>a. Inr (b85_text lib a))"

text \<open>
  Lines 152-179. \<^verbatim>\<open>features[:-1]\<close> is all of \<open>features\<close> but its last element (the
  empty list when \<open>features\<close> is empty); the quote of line 176 is written before
  \<^verbatim>\<open>features[-1]\<close> of line 177 is evaluated. The result is the outcome of the call and
  the text that the file holds when the \<^verbatim>\<open>with\<close> block closes it.
\<close>

definition save :: "('v, 'a) library \<Rightarrow> ('v, 'a) model \<Rightarrow> (error + unit) \<times> string" where
  "save lib m =
     (let features = sort (map fst (m_weights m)) in
      write_all
        (save_header lib m features
         @ concat (map (\<lambda>feat. [Inr quote, weight_text lib m feat, Inr (quote @ '','' @ nl)])
                       (butlast features))
         @ [Inr quote,
            bind_err (last_item features) (weight_text lib m),
            Inr (quote @ nl @ '']'' @ nl),
            Inr ('']'' @ nl)]))"

section \<open>Word shape\<close>

lemma shape_loop_runs:
  "shape_loop tab (Some c) s cs =
     take (3 - s) (takeWhile ((=) c) (map (shape_char tab) cs))
       @ concat (map (take 4) (runs (dropWhile ((=) c) (map (shape_char tab) cs))))"
proof (induction cs arbitrary: c s)
  case Nil
  then show ?case by simp
next
  case (Cons x xs)
  show ?case
  proof (cases "shape_char tab x = c")
    case True
    then show ?thesis
      using Cons.IH [of c "s + 1"]
      by (cases "s < 3") (simp_all add: Let_def take_Cons')
  next
    case False
    then show ?thesis
      using Cons.IH [of "shape_char tab x" 0]
      by (auto simp add: Let_def)
  qed
qed

lemma shape_loop_None_runs:
  "shape_loop tab None s cs = concat (map (take 4) (runs (map (shape_char tab) cs)))"
  by (cases cs) (simp_all add: Let_def shape_loop_runs)

lemma prefix_replicate_lead:
  "prefix (replicate n a) xs \<Longrightarrow> n \<le> length (takeWhile ((=) a) xs)"
proof (induction n arbitrary: xs)
  case 0
  then show ?case by simp
next
  case (Suc n)
  then show ?case by (cases xs) auto
qed

lemma no_run_Cons:
  assumes "length (takeWhile ((=) a) rest) \<le> 3"
    and "\<And>c. \<not> sublist (replicate 5 c) rest"
  shows "\<not> sublist (replicate 5 c) (a # rest)"
proof
  assume "sublist (replicate 5 c) (a # rest)"
  then have "prefix (replicate 5 c) (a # rest)"
    using assms(2) by (simp add: sublist_Cons_right)
  then have "c = a" and "prefix (replicate 4 a) rest"
    by (auto simp: numeral_eq_Suc)
  then show False
    using prefix_replicate_lead [of 4 a rest] assms(1) by simp
qed

lemma shape_loop_no_run:
  "(\<forall>c. \<not> sublist (replicate 5 c) (shape_loop tab last_c s cs))
   \<and> (\<forall>c. last_c = Some c \<longrightarrow> length (takeWhile ((=) c) (shape_loop tab last_c s cs)) \<le> 3 - s)"
proof (induction cs arbitrary: last_c s)
  case Nil
  then show ?case by (simp add: numeral_eq_Suc)
next
  case (Cons x xs)
  let ?sc = "shape_char tab x"
  show ?case
  proof (cases "Some ?sc = last_c")
    case True
    note IH = Cons.IH [of last_c "s + 1"]
    show ?thesis
    proof (cases "s < 3")
      case True
      have eq: "shape_loop tab last_c s (x # xs) = ?sc # shape_loop tab last_c (s + 1) xs"
        using \<open>Some ?sc = last_c\<close> True by (simp add: Let_def)
      have lead: "length (takeWhile ((=) ?sc) (shape_loop tab last_c (s + 1) xs)) \<le> 3 - (s + 1)"
        using IH \<open>Some ?sc = last_c\<close> by auto
      have "\<not> sublist (replicate 5 c) (?sc # shape_loop tab last_c (s + 1) xs)" for c
        using no_run_Cons [of ?sc "shape_loop tab last_c (s + 1) xs" c] lead IH by auto
      moreover have "length (takeWhile ((=) c) (shape_loop tab last_c s (x # xs))) \<le> 3 - s"
        if "last_c = Some c" for c
        using that lead \<open>Some ?sc = last_c\<close> True unfolding eq by auto
      ultimately show ?thesis unfolding eq by blast
    next
      case False
      have eq: "shape_loop tab last_c s (x # xs) = shape_loop tab last_c (s + 1) xs"
        using \<open>Some ?sc = last_c\<close> False by (simp add: Let_def)
      show ?thesis unfolding eq using IH False by auto
    qed
  next
    case False
    note IH = Cons.IH [of "Some ?sc" 0]
    have eq: "shape_loop tab last_c s (x # xs) = ?sc # shape_loop tab (Some ?sc) 0 xs"
      using False by (simp add: Let_def)
    have lead: "length (takeWhile ((=) ?sc) (shape_loop tab (Some ?sc) 0 xs)) \<le> 3"
      using IH by auto
    have "\<not> sublist (replicate 5 c) (?sc # shape_loop tab (Some ?sc) 0 xs)" for c
      using no_run_Cons [of ?sc "shape_loop tab (Some ?sc) 0 xs" c] lead IH by auto
    moreover have "length (takeWhile ((=) c) (shape_loop tab last_c s (x # xs))) \<le> 3 - s"
      if "last_c = Some c" for c
      using that False unfolding eq by auto
    ultimately show ?thesis unfolding eq by blast
  qed
qed

lemma long_no_run: "\<not> sublist (replicate 5 c) ''LONG''"
proof
  assume "sublist (replicate 5 c) ''LONG''"
  then have "length (replicate 5 c) \<le> length ''LONG''"
    by (rule sublist_length_le)
  then show False by simp
qed

text \<open>
  Claim C2, as the code has it: the loop appends a shape character while \<^verbatim>\<open>seq < 4\<close>,
  and \<^verbatim>\<open>seq\<close> is 0 at the first character of a run, so the first four characters of
  every run are kept. Whatever the character table: for a word of fewer than 100
  characters the shape is the sequence of shape characters with every maximal run cut to
  its first four, a word of 100 or more characters has the shape \<open>LONG\<close>, and no shape
  holds five equal characters in a row.
\<close>

theorem word_shape_keeps_four:
  "(length w < 100 \<longrightarrow>
      word_shape tab w = concat (map (take 4) (runs (map (shape_char tab) w))))
   \<and> (length w \<ge> 100 \<longrightarrow> word_shape tab w = ''LONG'')
   \<and> (\<forall>c. \<not> sublist (replicate 5 c) (word_shape tab w))"
  using shape_loop_no_run [of tab None 0 w]
  by (simp add: word_shape_def shape_loop_None_runs long_no_run)

text \<open>
  The word of six exclamation marks (fewer than 100 characters) and the word of 100
  letters \<open>a\<close>.
\<close>

theorem word_shape_keeps_four_witness:
  "length ''!!!!!!'' < 100
   \<and> word_shape ascii_chars ''!!!!!!''
       = concat (map (take 4) (runs (map (shape_char ascii_chars) ''!!!!!!'')))
   \<and> \<not> sublist (replicate 5 (CHR ''!'')) (word_shape ascii_chars ''!!!!!!'')
   \<and> length (replicate 100 (CHR ''a'')) \<ge> 100
   \<and> word_shape ascii_chars (replicate 100 (CHR ''a'')) = ''LONG''"
proof -
  have len: "length ''!!!!!!'' < 100"
    by simp
  have long: "length (replicate 100 (CHR ''a'')) \<ge> 100"
    by simp
  from len long word_shape_keeps_four [of "''!!!!!!''" ascii_chars]
    word_shape_keeps_four [of "replicate 100 (CHR ''a'')" ascii_chars]
  show ?thesis
    by blast
qed

text \<open>
  The claim as the spec states it (runs cut to three, \<open>!!!!!!\<close> giving \<open>!!!\<close>) fails: the
  shape of \<open>!!!!!!\<close> is \<open>!!!!\<close>, four equal characters in a row.
\<close>

theorem word_shape_six_bangs:
  "word_shape ascii_chars ''!!!!!!'' = ''!!!!''
   \<and> word_shape ascii_chars ''!!!!!!'' \<noteq> ''!!!''
   \<and> sublist (replicate 4 (CHR ''!'')) (word_shape ascii_chars ''!!!!!!'')"
  by (simp add: word_shape_def shape_char_def ascii_chars_def isalpha_c_def isupper_c_def
      islower_c_def isdigit_c_def Let_def numeral_eq_Suc)

section \<open>Static features\<close>

lemma in_set_flag: "f \<in> set (flag b pre name) \<longleftrightarrow> b \<and> f = pre @ name"
  by (auto simp: flag_def)







lemma list_ex_case_option:
  "list_ex P (case x of None \<Rightarrow> a | Some y \<Rightarrow> b y)
     = (case x of None \<Rightarrow> list_ex P a | Some y \<Rightarrow> list_ex P (b y))"
  by (cases x) simp_all


lemma case_option_same: "(case x of None \<Rightarrow> c | Some y \<Rightarrow> c) = c"
  by (cases x) simp_all

lemma local_features_ok:
  "(\<exists>fs. local_features t slen i word w p1 p2 n1 n2 = Inr fs) \<longleftrightarrow> word \<noteq> []"
  by (simp add: local_features_def bind_err_def round_log_def)



lemma sequence_err_Inr: "sequence_err rs = Inr xs \<longleftrightarrow> rs = map Inr xs"
proof (induction rs arbitrary: xs)
  case Nil
  then show ?case by auto
next
  case (Cons r rs)
  show ?case
  proof (cases r)
    case (Inl e)
    then show ?thesis by (auto simp: bind_err_def)
  next
    case (Inr a)
    show ?thesis
    proof (cases "sequence_err rs")
      case (Inl e)
      then have "rs \<noteq> map Inr ys" for ys
        using Cons.IH [of ys] by auto
      then show ?thesis
        using Inl Inr by (auto simp: bind_err_def)
    next
      case (Inr as)
      then have "rs = map Inr as"
        using Cons.IH by simp
      then show ?thesis
        using Inr \<open>r = Inr a\<close> by (auto simp: bind_err_def inj_map_eq_map [OF inj_Inr])
    qed
  qed
qed

lemma sequence_err_all_ok:
  assumes "\<And>r. r \<in> set rs \<Longrightarrow> \<exists>a. r = Inr a"
  shows "\<exists>xs. sequence_err rs = Inr xs"
  using assms
proof (induction rs)
  case Nil
  then show ?case by simp
next
  case (Cons r rs)
  then obtain a xs where "r = Inr a" "sequence_err rs = Inr xs"
    by (metis list.set_intros(1) list.set_intros(2))
  then show ?case by (simp add: bind_err_def)
qed

lemma token_features_ok:
  "(\<exists>fs. token_features t slen sentence i = Inr fs) \<longleftrightarrow> sentence ! i \<noteq> []"
  unfolding token_features_def Let_def by (rule local_features_ok)


lemma sentence_features_ok:
  assumes "\<And>w. w \<in> set sentence \<Longrightarrow> w \<noteq> []"
  shows "\<exists>F. sentence_features t slen sentence = Inr F"
  unfolding sentence_features_def
proof (rule sequence_err_all_ok)
  fix r
  assume "r \<in> set (map (token_features t slen sentence) [0..<length sentence])"
  then obtain i where "i < length sentence" "r = token_features t slen sentence i"
    by auto
  then show "\<exists>a. r = Inr a"
    using assms [of "sentence ! i"] token_features_ok [of t slen sentence i] by auto
qed

lemma set_slice: "set (slice a b xs) \<subseteq> set xs"
  unfolding slice_def by (meson set_drop_subset set_take_subset subset_trans)

lemma static_loop_ok:
  assumes "\<And>w. w \<in> set words \<Longrightarrow> w \<noteq> []"
  shows "\<exists>X. static_loop t words start lengths = Inr X"
proof (induction lengths arbitrary: start)
  case Nil
  then show ?case by simp
next
  case (Cons slen lengths)
  have "\<exists>F. sentence_features t slen (slice start (start + slen) words) = Inr F"
    using assms set_slice [of start "start + slen" words]
    by (intro sentence_features_ok) auto
  then show ?case
    using Cons [of "start + slen"] by (auto simp: bind_err_def)
qed

lemma static_features_ok:
  assumes "\<And>w. w \<in> set words \<Longrightarrow> w \<noteq> []"
  shows "\<exists>X. get_static_features t words lengths = Inr X"
  unfolding get_static_features_def using assms by (rule static_loop_ok)







section \<open>Cross-validation folds\<close>

lemma length_accumulate_from: "length (accumulate_from t xs) = length xs"
  by (induction xs arbitrary: t) auto

lemma nth_accumulate_from:
  "k < length xs \<Longrightarrow> accumulate_from t xs ! k = t + sum_list (take (Suc k) xs)"
proof (induction xs arbitrary: t k)
  case Nil
  then show ?case by simp
next
  case (Cons x xs)
  then show ?case by (cases k) (auto simp: add.assoc)
qed

lemma length_sentence_ranges: "length (sentence_ranges ls) = length ls"
  by (simp add: sentence_ranges_def accumulate_def length_accumulate_from)

lemma nth_sentence_ranges:
  assumes "k < length ls"
  shows "sentence_ranges ls ! k = (sum_list (take k ls), ls ! k)"
proof -
  have "sum_list (take (Suc k) ls) = sum_list (take k ls) + ls ! k"
    using assms by (simp add: take_Suc_conv_app_nth)
  then show ?thesis
    using assms
    by (simp add: sentence_ranges_def accumulate_def length_accumulate_from
        nth_accumulate_from)
qed

lemma concat_slices:
  assumes "lo 0 = 0" and "\<And>k. k < n \<Longrightarrow> lo k \<le> lo (Suc k)"
  shows "concat (map (\<lambda>k. slice (lo k) (lo (Suc k)) xs) [0..<n]) = take (lo n) xs"
  using assms(2)
proof (induction n)
  case 0
  then show ?case by (simp add: assms(1))
next
  case (Suc n)
  have le: "lo n \<le> lo (Suc n)" using Suc.prems by simp
  have "take (lo n) xs = take (lo n) (take (lo (Suc n)) xs)"
    using le by (simp add: min_def)
  then have "take (lo n) xs @ slice (lo n) (lo (Suc n)) xs = take (lo (Suc n)) xs"
    unfolding slice_def by (metis append_take_drop_id)
  then show ?case using Suc by simp
qed

lemma fold_bound_mono: "i * d + min i m \<le> Suc i * d + min (Suc i) m" for d m :: nat
  by (simp add: min_def)

lemma fold_bound_le:
  fixes k n :: nat
  assumes "k \<le> 10"
  shows "k * (n div 10) + min k (n mod 10) \<le> n"
proof -
  have "k * (n div 10) + min k (n mod 10) \<le> 10 * (n div 10) + n mod 10"
    using assms by (intro add_mono mult_le_mono1) auto
  then show ?thesis by simp
qed

lemma length_fold_slice:
  assumes "k < 10"
  shows "length (fold_slice k (length xs div 10) (length xs mod 10) xs)
           = (if k < length xs mod 10 then length xs div 10 + 1 else length xs div 10)"
proof -
  have "Suc k * (length xs div 10) + min (Suc k) (length xs mod 10) \<le> length xs"
    using assms fold_bound_le [of "Suc k" "length xs"] by simp
  then have "length (fold_slice k (length xs div 10) (length xs mod 10) xs)
      = Suc k * (length xs div 10) + min (Suc k) (length xs mod 10)
          - (k * (length xs div 10) + min k (length xs mod 10))"
    by (simp add: fold_slice_def slice_def)
  also have "\<dots> = (if k < length xs mod 10 then length xs div 10 + 1 else length xs div 10)"
    by (simp add: min_def)
  finally show ?thesis .
qed

lemma concat_fold_slices:
  "concat (map (\<lambda>k. fold_slice k (length xs div 10) (length xs mod 10) xs) [0..<10]) = xs"
proof -
  let ?d = "length xs div 10" and ?m = "length xs mod 10"
  let ?lo = "\<lambda>k. k * ?d + min k ?m"
  have "concat (map (\<lambda>k. slice (?lo k) (?lo (Suc k)) xs) [0..<10]) = take (?lo 10) xs"
    by (rule concat_slices) (simp_all add: fold_bound_mono)
  moreover have "?lo 10 = length xs"
    by simp
  ultimately show ?thesis
    by (simp add: fold_slice_def)
qed

lemma hd_slice: "a < b \<Longrightarrow> b \<le> length xs \<Longrightarrow> hd (slice a b xs) = xs ! a"
  by (simp add: slice_def hd_drop_conv_nth)

lemma last_slice:
  assumes "a < b" and "b \<le> length xs"
  shows "last (slice a b xs) = xs ! (b - 1)"
proof -
  have "last (slice a b xs) = last (take b xs)"
    using assms by (simp add: slice_def)
  also have "\<dots> = take b xs ! (length (take b xs) - 1)"
    using assms by (intro last_conv_nth) auto
  also have "\<dots> = xs ! (b - 1)"
    using assms by simp
  finally show ?thesis .
qed

lemma slice_nonempty: "a < b \<Longrightarrow> b \<le> length xs \<Longrightarrow> slice a b xs \<noteq> []"
  by (simp add: slice_def)

lemma sum_take_Suc:
  "j < length ls \<Longrightarrow> sum_list (take (Suc j) ls) = sum_list (take j ls) + ls ! j" for ls :: "nat list"
  by (simp add: take_Suc_conv_app_nth)

lemma sum_take_mono:
  "a \<le> b \<Longrightarrow> sum_list (take a ls) \<le> sum_list (take b ls)" for ls :: "nat list"
proof -
  assume "a \<le> b"
  then have "take b ls = take a ls @ take (b - a) (drop a ls)"
    by (metis le_add_diff_inverse take_add)
  then show ?thesis by simp
qed

lemma fold_bounds:
  fixes n :: nat
  assumes "10 \<le> n" and "k < 10"
  shows "k * (n div 10) + min k (n mod 10) < Suc k * (n div 10) + min (Suc k) (n mod 10)"
    and "Suc k * (n div 10) + min (Suc k) (n mod 10) \<le> n"
proof -
  have "0 < n div 10" using assms(1) by (simp add: div_greater_zero_iff)
  then show "k * (n div 10) + min k (n mod 10) < Suc k * (n div 10) + min (Suc k) (n mod 10)"
    by (simp add: min_def)
  show "Suc k * (n div 10) + min (Suc k) (n mod 10) \<le> n"
    using assms(2) fold_bound_le [of "Suc k" n] by simp
qed

lemma cross_val_split_many:
  assumes "10 \<le> length lengths" and "k < 10"
  shows "\<exists>sp. cross_val_split k words X y lengths (sentence_ranges lengths)
                 (length lengths div 10) (length lengths mod 10) = Inr sp
          \<and> test_lengths sp = fold_slice k (length lengths div 10) (length lengths mod 10) lengths
          \<and> train_lengths sp =
              take (k * (length lengths div 10) + min k (length lengths mod 10)) lengths
              @ drop (Suc k * (length lengths div 10) + min (Suc k) (length lengths mod 10)) lengths
          \<and> test_words sp =
              slice (sum_list (take (k * (length lengths div 10) + min k (length lengths mod 10)) lengths))
                    (sum_list (take (Suc k * (length lengths div 10)
                                       + min (Suc k) (length lengths mod 10)) lengths))
                    words"
proof -
  define d where "d = length lengths div 10"
  define m where "m = length lengths mod 10"
  define lo where "lo = k * d + min k m"
  define hi where "hi = Suc k * d + min (Suc k) m"
  define rs where "rs = sentence_ranges lengths"
  have lt: "lo < hi" and le: "hi \<le> length lengths"
    using fold_bounds [OF assms] unfolding lo_def hi_def d_def m_def by blast+
  have len: "length rs = length lengths"
    by (simp add: rs_def length_sentence_ranges)
  have nth: "rs ! j = (sum_list (take j lengths), lengths ! j)" if "j < length lengths" for j
    unfolding rs_def using that by (rule nth_sentence_ranges)
  have fs: "fold_slice k d m rs = slice lo hi rs"
    by (simp add: fold_slice_def lo_def hi_def)
  have ne: "fold_slice k d m rs \<noteq> []"
    unfolding fs using lt le by (intro slice_nonempty) (simp_all add: len)
  have "hd (fold_slice k d m rs) = rs ! lo"
    unfolding fs using lt le by (intro hd_slice) (simp_all add: len)
  also have "\<dots> = (sum_list (take lo lengths), lengths ! lo)"
    using lt le by (intro nth) simp
  finally have start: "fst (hd (fold_slice k d m rs)) = sum_list (take lo lengths)"
    by simp
  have "last (fold_slice k d m rs) = rs ! (hi - 1)"
    unfolding fs using lt le by (intro last_slice) (simp_all add: len)
  also have "\<dots> = (sum_list (take (hi - 1) lengths), lengths ! (hi - 1))"
    using lt le by (intro nth) simp
  finally have "fst (last (fold_slice k d m rs)) + snd (last (fold_slice k d m rs))
      = sum_list (take (hi - 1) lengths) + lengths ! (hi - 1)"
    by simp
  also have "\<dots> = sum_list (take (Suc (hi - 1)) lengths)"
    using lt le by (intro sum_take_Suc [symmetric]) simp
  also have "Suc (hi - 1) = hi"
    using lt by simp
  finally have stop: "fst (last (fold_slice k d m rs)) + snd (last (fold_slice k d m rs))
      = sum_list (take hi lengths)" .
  have "\<exists>sp. cross_val_split k words X y lengths rs d m = Inr sp
          \<and> test_lengths sp = fold_slice k d m lengths
          \<and> train_lengths sp = take lo lengths @ drop hi lengths
          \<and> test_words sp = slice (sum_list (take lo lengths)) (sum_list (take hi lengths)) words"
    using ne by (simp add: cross_val_split_def Let_def start stop lo_def hi_def)
  then show ?thesis
    unfolding rs_def lo_def hi_def d_def m_def .
qed


lemma cross_val_split_few:
  assumes "length lengths < 10"
  shows "cross_val_split (length lengths) words X y lengths (sentence_ranges lengths)
           (length lengths div 10) (length lengths mod 10) = Inl IndexError"
  using assms by (simp add: cross_val_split_def fold_slice_def slice_def Let_def)

lemma cross_val_split_error:
  "cross_val_split k words X y lengths rs d m = Inl e \<Longrightarrow> e = IndexError"
  by (auto simp: cross_val_split_def Let_def split: if_splits)

lemma sequence_err_Inl_mem: "sequence_err rs = Inl e \<Longrightarrow> Inl e \<in> set rs"
proof (induction rs)
  case Nil
  then show ?case by simp
next
  case (Cons r rs)
  then show ?case
    by (cases r; cases "sequence_err rs") (auto simp: bind_err_def)
qed

lemma sequence_err_fails: "Inl e \<in> set rs \<Longrightarrow> \<exists>e'. sequence_err rs = Inl e'"
proof (induction rs)
  case Nil
  then show ?case by simp
next
  case (Cons r rs)
  then show ?case
    by (cases r; cases "sequence_err rs") (auto simp: bind_err_def)
qed

lemma crossvalidate_few:
  assumes "get_static_features t words lengths = Inr X" and "length lengths < 10"
  shows "crossvalidate_splits t words tags lengths = Inl IndexError"
proof -
  let ?job = "\<lambda>i. cross_val_split i words X tags lengths (sentence_ranges lengths)
                  (length lengths div 10) (length lengths mod 10)"
  have "length lengths \<in> set [0..<10]"
    using assms(2) by simp
  then have "?job (length lengths) \<in> ?job ` set [0..<10]"
    by (rule imageI)
  then have "?job (length lengths) \<in> set (map ?job [0..<10])"
    by (simp only: set_map)
  then have "Inl IndexError \<in> set (map ?job [0..<10])"
    using cross_val_split_few [OF assms(2), of words X tags] by simp
  then obtain e where e: "sequence_err (map ?job [0..<10]) = Inl e"
    using sequence_err_fails by blast
  then have "Inl e \<in> set (map ?job [0..<10])"
    by (rule sequence_err_Inl_mem)
  then obtain i where "?job i = Inl e"
    by auto
  then have "e = IndexError"
    by (rule cross_val_split_error)
  with e show ?thesis
    using assms(1)
    by (simp add: crossvalidate_splits_def Let_def bind_err_def length_sentence_ranges)
qed


lemma crossvalidate_many:
  assumes sf: "get_static_features t words lengths = Inr X" and many: "10 \<le> length lengths"
  shows "\<exists>splits. crossvalidate_splits t words tags lengths = Inr splits
          \<and> map test_lengths splits
              = map (\<lambda>k. fold_slice k (length lengths div 10) (length lengths mod 10) lengths) [0..<10]
          \<and> map train_lengths splits
              = map (\<lambda>k. take (k * (length lengths div 10) + min k (length lengths mod 10)) lengths
                         @ drop (Suc k * (length lengths div 10)
                                  + min (Suc k) (length lengths mod 10)) lengths) [0..<10]
          \<and> map test_words splits
              = map (\<lambda>k. slice
                     (sum_list (take (k * (length lengths div 10) + min k (length lengths mod 10)) lengths))
                     (sum_list (take (Suc k * (length lengths div 10)
                                        + min (Suc k) (length lengths mod 10)) lengths))
                     words) [0..<10]"
proof -
  define job where "job = (\<lambda>i. cross_val_split i words X tags lengths (sentence_ranges lengths)
                  (length lengths div 10) (length lengths mod 10))"
  define sp where "sp = (\<lambda>k. projr (job k))"
  have ok: "job k = Inr (sp k)
      \<and> test_lengths (sp k) = fold_slice k (length lengths div 10) (length lengths mod 10) lengths
      \<and> train_lengths (sp k) =
          take (k * (length lengths div 10) + min k (length lengths mod 10)) lengths
          @ drop (Suc k * (length lengths div 10) + min (Suc k) (length lengths mod 10)) lengths
      \<and> test_words (sp k) =
          slice (sum_list (take (k * (length lengths div 10) + min k (length lengths mod 10)) lengths))
                (sum_list (take (Suc k * (length lengths div 10)
                                   + min (Suc k) (length lengths mod 10)) lengths))
                words"
    if k: "k < 10" for k
  proof -
    obtain s where s: "job k = Inr s"
      and "test_lengths s = fold_slice k (length lengths div 10) (length lengths mod 10) lengths"
      and "train_lengths s =
          take (k * (length lengths div 10) + min k (length lengths mod 10)) lengths
          @ drop (Suc k * (length lengths div 10) + min (Suc k) (length lengths mod 10)) lengths"
      and "test_words s =
          slice (sum_list (take (k * (length lengths div 10) + min k (length lengths mod 10)) lengths))
                (sum_list (take (Suc k * (length lengths div 10)
                                   + min (Suc k) (length lengths mod 10)) lengths))
                words"
      using cross_val_split_many [OF many k, of words X tags] unfolding job_def by blast
    moreover from s have "sp k = s"
      by (simp add: sp_def)
    ultimately show ?thesis
      by simp
  qed
  have "map job [0..<10] = map Inr (map sp [0..<10])"
    using ok by simp
  then have "sequence_err (map job [0..<10]) = Inr (map sp [0..<10])"
    by (simp only: sequence_err_Inr)
  then have "crossvalidate_splits t words tags lengths = Inr (map sp [0..<10])"
    using sf
    by (simp add: crossvalidate_splits_def Let_def bind_err_def length_sentence_ranges job_def)
  moreover have "map test_lengths (map sp [0..<10])
      = map (\<lambda>k. fold_slice k (length lengths div 10) (length lengths mod 10) lengths) [0..<10]"
    using ok by simp
  moreover have "map train_lengths (map sp [0..<10])
      = map (\<lambda>k. take (k * (length lengths div 10) + min k (length lengths mod 10)) lengths
                 @ drop (Suc k * (length lengths div 10)
                          + min (Suc k) (length lengths mod 10)) lengths) [0..<10]"
    using ok by simp
  moreover have "map test_words (map sp [0..<10])
      = map (\<lambda>k. slice
             (sum_list (take (k * (length lengths div 10) + min k (length lengths mod 10)) lengths))
             (sum_list (take (Suc k * (length lengths div 10)
                                + min (Suc k) (length lengths mod 10)) lengths))
             words) [0..<10]"
    using ok by simp
  ultimately show ?thesis
    by (intro exI [of _ "map sp [0..<10]"] conjI)
qed

lemma take_slice_drop:
  "a \<le> b \<Longrightarrow> take a xs @ slice a b xs @ drop b xs = xs"
  by (metis append.assoc append_take_drop_id min.absorb1 slice_def take_take)

text \<open>
  Claim C3, as the code has it. Let \<open>N\<close> be the number of sentences and suppose the
  static features of the corpus are extracted (line 138 runs before the folds are cut).
  With ten sentences or more, \<^verbatim>\<open>crossvalidate\<close> hands the learner ten splits; their
  test parts are contiguous slices of the sentences in the original order, they
  concatenate to all of \<open>lengths\<close> (and their words to the words that \<open>lengths\<close>
  covers), the training part of a split is what lies before and after its test part,
  fold \<open>k\<close> has \<open>div + 1\<close> sentences if \<open>k < mod\<close> and \<open>div\<close> otherwise, the sizes sum
  to \<open>N\<close> and differ by at most one. With fewer than ten sentences some fold is empty
  and \<^verbatim>\<open>test_ranges[0]\<close> (line 192) raises \<^verbatim>\<open>IndexError\<close>.
\<close>

theorem crossvalidate_ten_folds:
  assumes "get_static_features t words lengths = Inr X"
  shows "(10 \<le> length lengths \<longrightarrow>
           (\<exists>splits. crossvalidate_splits t words tags lengths = Inr splits
              \<and> length splits = 10
              \<and> concat (map test_lengths splits) = lengths
              \<and> concat (map test_words splits) = take (sum_list lengths) words
              \<and> (\<forall>k<10. length (test_lengths (splits ! k))
                     = (if k < length lengths mod 10 then length lengths div 10 + 1
                        else length lengths div 10))
              \<and> (\<forall>k<10. \<exists>before after.
                     lengths = before @ test_lengths (splits ! k) @ after
                     \<and> train_lengths (splits ! k) = before @ after)
              \<and> sum_list (map (\<lambda>sp. length (test_lengths sp)) splits) = length lengths
              \<and> (\<forall>j<10. \<forall>k<10. length (test_lengths (splits ! j))
                                   \<le> length (test_lengths (splits ! k)) + 1)))
       \<and> (length lengths < 10 \<longrightarrow> crossvalidate_splits t words tags lengths = Inl IndexError)"
proof (intro conjI impI)
  assume "length lengths < 10"
  with assms show "crossvalidate_splits t words tags lengths = Inl IndexError"
    by (rule crossvalidate_few)
next
  assume many: "10 \<le> length lengths"
  define d where "d = length lengths div 10"
  define m where "m = length lengths mod 10"
  define lo where "lo = (\<lambda>k. k * d + min k m)"
  define S where "S = (\<lambda>k. sum_list (take (lo k) lengths))"
  obtain splits where res: "crossvalidate_splits t words tags lengths = Inr splits"
    and tl: "map test_lengths splits = map (\<lambda>k. fold_slice k d m lengths) [0..<10]"
    and trl: "map train_lengths splits
                = map (\<lambda>k. take (lo k) lengths @ drop (lo (Suc k)) lengths) [0..<10]"
    and tw: "map test_words splits = map (\<lambda>k. slice (S k) (S (Suc k)) words) [0..<10]"
    using crossvalidate_many [OF assms many, of tags]
    unfolding d_def m_def lo_def S_def by blast
  have len: "length splits = 10"
    using arg_cong [OF tl, of length] by simp
  have nth_tl: "test_lengths (splits ! k) = fold_slice k d m lengths" if "k < 10" for k
    using arg_cong [OF tl, of "\<lambda>xs. xs ! k"] that len by simp
  have nth_trl: "train_lengths (splits ! k) = take (lo k) lengths @ drop (lo (Suc k)) lengths"
    if "k < 10" for k
    using arg_cong [OF trl, of "\<lambda>xs. xs ! k"] that len by simp
  have cat: "concat (map test_lengths splits) = lengths"
    unfolding tl d_def m_def by (rule concat_fold_slices)
  have lo10: "lo 10 = length lengths"
    by (simp add: lo_def d_def m_def)
  have "concat (map (\<lambda>k. slice (S k) (S (Suc k)) words) [0..<10]) = take (S 10) words"
  proof (rule concat_slices)
    show "S 0 = 0"
      by (simp add: S_def lo_def)
    show "S k \<le> S (Suc k)" if "k < 10" for k
      unfolding S_def by (rule sum_take_mono) (simp add: lo_def min_def)
  qed
  then have catw: "concat (map test_words splits) = take (sum_list lengths) words"
    by (simp only: tw) (simp add: S_def lo10)
  have size: "length (test_lengths (splits ! k))
      = (if k < length lengths mod 10 then length lengths div 10 + 1 else length lengths div 10)"
    if "k < 10" for k
    using length_fold_slice [OF that, of lengths] nth_tl [OF that]
    by (simp only: d_def m_def)
  have train: "\<exists>before after. lengths = before @ test_lengths (splits ! k) @ after
      \<and> train_lengths (splits ! k) = before @ after" if "k < 10" for k
  proof (intro exI conjI)
    have "lo k \<le> lo (Suc k)"
      by (simp add: lo_def min_def)
    then have "take (lo k) lengths @ slice (lo k) (lo (Suc k)) lengths @ drop (lo (Suc k)) lengths
        = lengths"
      by (rule take_slice_drop)
    then show "lengths = take (lo k) lengths @ test_lengths (splits ! k) @ drop (lo (Suc k)) lengths"
      by (simp add: nth_tl [OF that] fold_slice_def lo_def)
    show "train_lengths (splits ! k) = take (lo k) lengths @ drop (lo (Suc k)) lengths"
      using that by (rule nth_trl)
  qed
  have "sum_list (map (\<lambda>sp. length (test_lengths sp)) splits)
      = sum_list (map length (map test_lengths splits))"
    by (simp add: comp_def)
  also have "\<dots> = length (concat (map test_lengths splits))"
    by (simp only: length_concat)
  finally have total: "sum_list (map (\<lambda>sp. length (test_lengths sp)) splits) = length lengths"
    by (simp only: cat)
  have near: "length (test_lengths (splits ! j)) \<le> length (test_lengths (splits ! k)) + 1"
    if "j < 10" and "k < 10" for j k
    using size [OF that(1)] size [OF that(2)] by (simp split: if_splits)
  show "\<exists>splits. crossvalidate_splits t words tags lengths = Inr splits
              \<and> length splits = 10
              \<and> concat (map test_lengths splits) = lengths
              \<and> concat (map test_words splits) = take (sum_list lengths) words
              \<and> (\<forall>k<10. length (test_lengths (splits ! k))
                     = (if k < length lengths mod 10 then length lengths div 10 + 1
                        else length lengths div 10))
              \<and> (\<forall>k<10. \<exists>before after.
                     lengths = before @ test_lengths (splits ! k) @ after
                     \<and> train_lengths (splits ! k) = before @ after)
              \<and> sum_list (map (\<lambda>sp. length (test_lengths sp)) splits) = length lengths
              \<and> (\<forall>j<10. \<forall>k<10. length (test_lengths (splits ! j))
                                   \<le> length (test_lengths (splits ! k)) + 1)"
  proof (intro exI [of _ splits] conjI allI impI)
    show "crossvalidate_splits t words tags lengths = Inr splits" by (rule res)
    show "length splits = 10" by (rule len)
    show "concat (map test_lengths splits) = lengths" by (rule cat)
    show "concat (map test_words splits) = take (sum_list lengths) words" by (rule catw)
    show "sum_list (map (\<lambda>sp. length (test_lengths sp)) splits) = length lengths" by (rule total)
  next
    fix k :: nat assume "k < 10"
    then show "length (test_lengths (splits ! k))
        = (if k < length lengths mod 10 then length lengths div 10 + 1 else length lengths div 10)"
      by (rule size)
  next
    fix k :: nat assume "k < 10"
    then show "\<exists>before after. lengths = before @ test_lengths (splits ! k) @ after
        \<and> train_lengths (splits ! k) = before @ after"
      by (rule train)
  next
    fix j k :: nat assume "j < 10" and "k < 10"
    then show "length (test_lengths (splits ! j)) \<le> length (test_lengths (splits ! k)) + 1"
      by (rule near)
  qed
qed

text \<open>
  An instance of each half: 23 one-word sentences give ten folds, of which fold 2 has
  three sentences and fold 3 has two; no sentence at all gives \<^verbatim>\<open>IndexError\<close>.
\<close>

theorem crossvalidate_ten_folds_witness:
  "(\<exists>splits. crossvalidate_splits (bare_tagger no_match None)
               (replicate 23 ''a'') (replicate 23 ''T'') (replicate 23 1) = Inr splits
      \<and> length splits = 10
      \<and> concat (map test_lengths splits) = replicate 23 1
      \<and> length (test_lengths (splits ! 2)) = 3
      \<and> length (test_lengths (splits ! 3)) = 2)
   \<and> crossvalidate_splits (bare_tagger no_match None) [] ([] :: string list) [] = Inl IndexError"
proof -
  obtain X where X: "get_static_features (bare_tagger no_match None)
                       (replicate 23 ''a'') (replicate 23 1) = Inr X"
    using static_features_ok [of "replicate 23 ''a''" "bare_tagger no_match None" "replicate 23 1"]
    by auto
  have Y: "get_static_features (bare_tagger no_match None) [] [] = Inr []"
    by (simp add: get_static_features_def)
  have "\<exists>splits. crossvalidate_splits (bare_tagger no_match None)
               (replicate 23 ''a'') (replicate 23 ''T'') (replicate 23 1) = Inr splits
      \<and> length splits = 10
      \<and> concat (map test_lengths splits) = replicate 23 1
      \<and> length (test_lengths (splits ! 2)) = 3
      \<and> length (test_lengths (splits ! 3)) = 2"
    using crossvalidate_ten_folds [OF X, of "replicate 23 ''T''"] by auto
  moreover have "crossvalidate_splits (bare_tagger no_match None) [] ([] :: string list) []
      = Inl IndexError"
    using crossvalidate_ten_folds [OF Y, of "[] :: string list"] by simp
  ultimately show ?thesis
    by (rule conjI)
qed

text \<open>
  The claim as the spec states it, for every \<open>N\<close>, fails on three sentences: folds 3 to 9
  are empty and the job of fold 3 raises.
\<close>

theorem crossvalidate_three_sentences:
  "crossvalidate_splits (bare_tagger no_match None)
     [''a'', ''b'', ''c''] [''x'', ''y'', ''z''] [1, 1, 1] = Inl IndexError"
proof -
  obtain X where "get_static_features (bare_tagger no_match None) [''a'', ''b'', ''c''] [1, 1, 1]
      = Inr X"
    using static_features_ok [of "[''a'', ''b'', ''c'']" "bare_tagger no_match None" "[1, 1, 1]"]
    by auto
  then show ?thesis
    by (rule crossvalidate_few) simp
qed

section \<open>Evaluation\<close>

lemma static_features_no_lengths: "get_static_features t words [] = Inr []"
  by (simp add: get_static_features_def)

lemma foldl_count_token_totals:
  "total (foldl (\<lambda>c' wgp. count_token voc wgp c') c xs) = total c + length xs"
  "total_iv (foldl (\<lambda>c' wgp. count_token voc wgp c') c xs)
     = total_iv c + length (filter (\<lambda>(w, g, p). w \<in> voc) xs)"
  "total_oov (foldl (\<lambda>c' wgp. count_token voc wgp c') c xs)
     = total_oov c + length (filter (\<lambda>(w, g, p). w \<notin> voc) xs)"
  by (induction xs arbitrary: c) (auto simp: count_token_def Let_def split: prod.splits)

lemma evaluate_loop_no_predictions:
  "list_all (\<lambda>(slen, p). p = []) zs \<Longrightarrow> evaluate_loop voc words tags start zs c = c"
  by (induction zs arbitrary: start c) (auto simp: Let_def)

lemma accuracies_zero_total: "total c = 0 \<Longrightarrow> accuracies c = Inl ZeroDivisionError"
  by (simp add: accuracies_def truediv_def bind_err_def)

lemma accuracies_iv_zero:
  "total c \<noteq> 0 \<Longrightarrow> total_iv c = 0 \<Longrightarrow> \<exists>a b. accuracies c = Inr (a, 0, b)"
  by (simp add: accuracies_def truediv_def bind_err_def or_zero_def)

lemma accuracies_oov_zero:
  "total c \<noteq> 0 \<Longrightarrow> total_oov c = 0 \<Longrightarrow> \<exists>a b. accuracies c = Inr (a, b, 0)"
  by (simp add: accuracies_def truediv_def bind_err_def or_zero_def)

lemma count_token_split:
  "total c = total_iv c + total_oov c \<Longrightarrow>
   total (count_token voc wgp c) = total_iv (count_token voc wgp c) + total_oov (count_token voc wgp c)"
  by (auto simp: count_token_def Let_def split: prod.splits)

lemma foldl_count_token_split:
  "total c = total_iv c + total_oov c \<Longrightarrow>
   total (foldl (\<lambda>c' wgp. count_token voc wgp c') c xs)
     = total_iv (foldl (\<lambda>c' wgp. count_token voc wgp c') c xs)
       + total_oov (foldl (\<lambda>c' wgp. count_token voc wgp c') c xs)"
  by (induction xs arbitrary: c) (simp_all add: count_token_split)

lemma evaluate_loop_split:
  "total c = total_iv c + total_oov c \<Longrightarrow>
   total (evaluate_loop voc words tags start zs c)
     = total_iv (evaluate_loop voc words tags start zs c)
       + total_oov (evaluate_loop voc words tags start zs c)"
  by (induction zs arbitrary: start c) (auto simp: Let_def foldl_count_token_split)

text \<open>
  The guards of lines 125-132. \<open>c\<close> holds the counters after the loop of
  \<^verbatim>\<open>evaluate\<close>. When at least one token was counted, a category (in-vocabulary,
  out-of-vocabulary) with no token gets the accuracy 0 and \<^verbatim>\<open>evaluate\<close> returns its
  triple.
\<close>

lemma evaluate_empty_category:
  assumes "get_static_features (t\<lparr>latent_words := Some (map lower words)\<rparr>) words lengths = Inr X"
    and "c = evaluate_loop (vocabulary t) words tags 0
               (zip lengths (predict (t\<lparr>latent_words := Some (map lower words)\<rparr>) X lengths))
               \<lparr>correct = 0, correct_iv = 0, correct_oov = 0,
                total = 0, total_iv = 0, total_oov = 0\<rparr>"
    and "total c \<noteq> 0"
  shows "(total_iv c = 0 \<longrightarrow>
            (\<exists>a b. fst (evaluate predict t words tags lengths) = Inr (a, 0, b)))
       \<and> (total_oov c = 0 \<longrightarrow>
            (\<exists>a b. fst (evaluate predict t words tags lengths) = Inr (a, b, 0)))"
proof -
  have "fst (evaluate predict t words tags lengths) = accuracies c"
    using assms(1,2) by (simp add: evaluate_def Let_def bind_err_def)
  then show ?thesis
    using assms(3) accuracies_iv_zero [of c] accuracies_oov_zero [of c] by auto
qed

text \<open>One out-of-vocabulary token, tagged correctly: the in-vocabulary accuracy is 0.\<close>

lemma evaluate_one_oov_token:
  "\<exists>a b. fst (evaluate (predict_const [[''DET'']]) (bare_tagger no_match None)
                 [''the''] [''DET''] [1]) = Inr (a, 0, b)"
proof -
  let ?t = "bare_tagger no_match None"
  let ?t' = "?t\<lparr>latent_words := Some (map lower [''the''])\<rparr>"
  obtain X where X: "get_static_features ?t' [''the''] [1] = Inr X"
    using static_features_ok [of "[''the'']" ?t' "[1]"] by auto
  define c where "c = evaluate_loop (vocabulary ?t) [''the''] [''DET''] 0
               (zip [1] (predict_const [[''DET'']] ?t' X [1]))
               \<lparr>correct = 0, correct_iv = 0, correct_oov = 0,
                total = 0, total_iv = 0, total_oov = 0\<rparr>"
  have "total c \<noteq> 0" and "total_iv c = 0"
    by (simp_all add: c_def predict_const_def bare_tagger_def slice_def count_token_def Let_def)
  with X c_def
    evaluate_empty_category [where t = ?t and words = "[''the'']" and lengths = "[1]"
      and X = X and c = c and tags = "[''DET'']" and predict = "predict_const [[''DET'']]"]
  show ?thesis
    by blast
qed

text \<open>
  Claim C5 says that a category with zero tokens gets the accuracy 0 on every input, and
  that a prediction set with zero out-of-vocabulary tokens gives \<^verbatim>\<open>accuracy_oov == 0\<close>,
  not an error. On the input with no token the out-of-vocabulary category has zero
  tokens, and \<^verbatim>\<open>evaluate\<close> raises \<^verbatim>\<open>ZeroDivisionError\<close>: the division
  \<^verbatim>\<open>correct / total\<close> of line 124 comes first and, unlike the two divisions after it
  (lines 125-132), it is not inside \<^verbatim>\<open>try\<close>.
\<close>

theorem evaluate_no_oov_tokens_raises:
  "total_oov (evaluate_loop (vocabulary (bare_tagger no_match None)) [] [] 0 []
       \<lparr>correct = 0, correct_iv = 0, correct_oov = 0, total = 0, total_iv = 0, total_oov = 0\<rparr>) = 0
   \<and> fst (evaluate (predict_const []) (bare_tagger no_match None) [] [] [])
       = Inl ZeroDivisionError"
  by (simp add: evaluate_def get_static_features_def bind_err_def accuracies_def truediv_def
      predict_const_def Let_def)

text \<open>
  Claim C10. When the static features are extracted and no token is counted, because
  \<^verbatim>\<open>lengths\<close> is empty or because every predicted tag sequence is empty, the division
  \<^verbatim>\<open>correct / total\<close> of line 124 raises \<^verbatim>\<open>ZeroDivisionError\<close>: it is not guarded as
  the two divisions after it are.
\<close>

theorem evaluate_zero_total:
  assumes "get_static_features (t\<lparr>latent_words := Some (map lower words)\<rparr>) words lengths = Inr X"
    and "lengths = [] \<or>
         list_all (\<lambda>p. p = []) (predict (t\<lparr>latent_words := Some (map lower words)\<rparr>) X lengths)"
  shows "fst (evaluate predict t words tags lengths) = Inl ZeroDivisionError"
proof -
  let ?t = "t\<lparr>latent_words := Some (map lower words)\<rparr>"
  let ?zs = "zip lengths (predict ?t X lengths)"
  have "list_all (\<lambda>(slen, p). p = []) ?zs"
    using assms(2)
    by (auto simp: list_all_iff dest: set_zip_rightD)
  then have "evaluate_loop (vocabulary ?t) words tags 0 ?zs c = c" for c
    by (rule evaluate_loop_no_predictions)
  then show ?thesis
    using assms(1)
    by (simp add: evaluate_def Let_def bind_err_def accuracies_zero_total)
qed

text \<open>Both cases: no sentence at all, and one sentence whose prediction is empty.\<close>

theorem evaluate_zero_total_witness:
  "fst (evaluate (predict_const []) (bare_tagger no_match None) [] [] [])
     = Inl ZeroDivisionError
   \<and> fst (evaluate (predict_const [[]]) (bare_tagger no_match None) [''the''] [''DET''] [1])
     = Inl ZeroDivisionError"
proof -
  let ?t = "bare_tagger no_match None"
  have 1: "get_static_features (?t\<lparr>latent_words := Some (map lower [])\<rparr>) [] [] = Inr []"
    by (rule static_features_no_lengths)
  obtain X where 2: "get_static_features (?t\<lparr>latent_words := Some (map lower [''the''])\<rparr>) [''the''] [1] = Inr X"
    using static_features_ok [of "[''the'']" _ "[1]"] by auto
  show ?thesis
    using 1 2
      evaluate_zero_total [where t = ?t and words = "[]" and lengths = "[]" and X = "[]"
        and predict = "predict_const []" and tags = "[]"]
      evaluate_zero_total [where t = ?t and words = "[''the'']" and lengths = "[1]" and X = X
        and predict = "predict_const [[]]" and tags = "[''DET'']"]
    by (simp add: predict_const_def)
qed

section \<open>The vocabulary\<close>

text \<open>
  Claim C8. \<^verbatim>\<open>train\<close> adds the words of its input to the vocabulary, whether or not
  it then raises, so the vocabulary before is a subset of the vocabulary after;
  \<^verbatim>\<open>tag\<close> and \<^verbatim>\<open>evaluate\<close> leave the vocabulary as it was.
\<close>

theorem vocabulary_grows_by_train_only:
  "vocabulary (snd (train fit t words tags lengths)) = vocabulary t \<union> set words
   \<and> vocabulary t \<subseteq> vocabulary (snd (train fit t words tags lengths))
   \<and> vocabulary (snd (tag predict t words lengths)) = vocabulary t
   \<and> vocabulary (snd (evaluate predict t words tags' lengths)) = vocabulary t"
  by (auto simp: train_def tag_def evaluate_def Let_def split: sum.splits)

section \<open>Latent features\<close>

lemma bind_err_simps:
  "bind_err (Inr a) f = f a"
  "bind_err (Inl e) f = Inl e"
  by (simp_all add: bind_err_def)

lemma getitem_in_range: "k < length xs \<Longrightarrow> getitem xs k = Inr (xs ! k)"
  by (simp add: getitem_def)

lemma lookup_dom:
  "k \<in> dom d \<Longrightarrow> \<exists>v. lookup d k = Inr v"
  "k \<notin> dom d \<Longrightarrow> lookup d k = Inl KeyError"
  by (auto simp: lookup_def split: option.splits)

lemma latent_features_unfolded:
  assumes m: "mapping t = Some m" and "i \<le> length beam" and "start + i < length words"
    and tags: "tags = [''<START-2>'', ''<START-1>''] @ beam"
  shows "get_latent_features t words start beam i =
      bind_err
        (if i \<ge> 1 then
           bind_err (lookup m (tags ! (i + 1))) (\<lambda>wc.
             Inr ([''P1_word, P1_pos: '' @ words ! (start + i - 1) @ '', '' @ tags ! (i + 1)]
                  @ [''P1_word, P1_wc: '' @ words ! (start + i - 1) @ '', '' @ wc]))
         else Inr [])
        (\<lambda>f1.
      bind_err
        (if i \<ge> 2 then
           bind_err (lookup m (tags ! i)) (\<lambda>wc.
             Inr ([''P2_word, P2_pos: '' @ words ! (start + i - 2) @ '', '' @ tags ! i]
                  @ [''P2_word, P2_wc: '' @ words ! (start + i - 2) @ '', '' @ wc]))
         else Inr [])
        (\<lambda>f2.
      bind_err (lookup m (tags ! (i + 1))) (\<lambda>c1.
      bind_err (lookup m (tags ! i)) (\<lambda>c2.
      Inr (f1 @ f2
           @ [''P1_pos: '' @ tags ! (i + 1),
              ''P2_pos: '' @ tags ! i,
              ''P2_pos, P1_pos: '' @ tags ! i @ '', '' @ tags ! (i + 1),
              ''P1_pos, W_word: '' @ tags ! (i + 1) @ '', '' @ words ! (start + i)]
           @ [''P1_wc: '' @ c1,
              ''P2_wc: '' @ c2,
              ''P2_wc, P1_wc: '' @ c2 @ '', '' @ c1,
              ''P1_wc, W_word: '' @ c1 @ '', '' @ words ! (start + i)])))))"
proof -
  have t1: "getitem ([''<START-2>'', ''<START-1>''] @ beam) (i + 2 - 1) = Inr (tags ! (i + 1))"
    using assms(2) by (simp add: getitem_def tags)
  have t2: "getitem ([''<START-2>'', ''<START-1>''] @ beam) (i + 2 - 2) = Inr (tags ! i)"
    using assms(2) by (simp add: getitem_def tags)
  have w0: "getitem words (start + i) = Inr (words ! (start + i))"
    using assms(3) by (simp add: getitem_def)
  have w1: "getitem words (start + i - 1) = Inr (words ! (start + i - 1))"
    using assms(3) by (simp add: getitem_def)
  have w2: "getitem words (start + i - 2) = Inr (words ! (start + i - 2))"
    using assms(3) by (simp add: getitem_def)
  show ?thesis
    unfolding get_latent_features_def Let_def
    by (simp only: t1 t2 w0 w1 w2 m option.case bind_err_simps)
      (simp add: bind_err_def split: sum.splits)
qed


lemma latent_both:
  assumes "mapping t = Some m" and "i \<le> length beam" and "start + i < length words"
    and tags: "tags = [''<START-2>'', ''<START-1>''] @ beam"
    and "lookup m (tags ! (i + 1)) = Inr c1" "lookup m (tags ! i) = Inr c2"
  shows "\<exists>fs. get_latent_features t words start beam i = Inr fs"
  unfolding latent_features_unfolded [OF assms(1-4)] assms(5,6) bind_err_simps
  by (cases "1 \<le> i"; cases "2 \<le> i"; simp add: bind_err_simps)


lemma latent_first_missing:
  assumes "mapping t = Some m" and "i \<le> length beam" and "start + i < length words"
    and tags: "tags = [''<START-2>'', ''<START-1>''] @ beam"
    and "lookup m (tags ! (i + 1)) = Inl KeyError"
  shows "get_latent_features t words start beam i = Inl KeyError"
  unfolding latent_features_unfolded [OF assms(1-4)] assms(5) bind_err_simps
  by (cases "1 \<le> i"; cases "2 \<le> i"; simp add: bind_err_simps)

lemma latent_second_missing:
  assumes "mapping t = Some m" and "i \<le> length beam" and "start + i < length words"
    and tags: "tags = [''<START-2>'', ''<START-1>''] @ beam"
    and "lookup m (tags ! (i + 1)) = Inr c1" "lookup m (tags ! i) = Inl KeyError"
  shows "get_latent_features t words start beam i = Inl KeyError"
  unfolding latent_features_unfolded [OF assms(1-4)] assms(5,6) bind_err_simps
  by (cases "1 \<le> i"; cases "2 \<le> i"; simp add: bind_err_simps)

text \<open>
  Claim C7, as the code has it. The call consults two tags only: those at the positions
  \<open>j - 1\<close> and \<open>j - 2\<close> of the history padded with the two boundary tags (\<open>j = i + 2\<close>).
  With a mapping configured and the subscripts in range, the call returns a feature list
  when both consulted tags are keys of the mapping, and raises \<^verbatim>\<open>KeyError\<close> when one
  of them is not.
\<close>

theorem latent_features_consulted_tags:
  assumes "mapping t = Some m" and "i \<le> length beam" and "start + i < length words"
  shows "(([''<START-2>'', ''<START-1>''] @ beam) ! (i + 1) \<in> dom m
            \<and> ([''<START-2>'', ''<START-1>''] @ beam) ! i \<in> dom m
          \<longrightarrow> (\<exists>fs. get_latent_features t words start beam i = Inr fs))
       \<and> (([''<START-2>'', ''<START-1>''] @ beam) ! (i + 1) \<notin> dom m
            \<or> ([''<START-2>'', ''<START-1>''] @ beam) ! i \<notin> dom m
          \<longrightarrow> get_latent_features t words start beam i = Inl KeyError)"
proof -
  define tags where "tags = [''<START-2>'', ''<START-1>''] @ beam"
  note pre = assms tags_def
  have both: "\<exists>fs. get_latent_features t words start beam i = Inr fs"
    if "tags ! (i + 1) \<in> dom m" "tags ! i \<in> dom m"
  proof -
    from lookup_dom(1) [OF that(1)] obtain c1 where c1: "lookup m (tags ! (i + 1)) = Inr c1" ..
    from lookup_dom(1) [OF that(2)] obtain c2 where c2: "lookup m (tags ! i) = Inr c2" ..
    from c1 c2 show ?thesis
      by (rule latent_both [OF pre])
  qed
  have first: "get_latent_features t words start beam i = Inl KeyError"
    if "tags ! (i + 1) \<notin> dom m"
    using lookup_dom(2) [OF that] by (rule latent_first_missing [OF pre])
  have second: "get_latent_features t words start beam i = Inl KeyError"
    if "tags ! i \<notin> dom m"
  proof (cases "tags ! (i + 1) \<in> dom m")
    case True
    from lookup_dom(1) [OF True] obtain c1 where c1: "lookup m (tags ! (i + 1)) = Inr c1" ..
    from c1 lookup_dom(2) [OF that] show ?thesis
      by (rule latent_second_missing [OF pre])
  next
    case False
    then show ?thesis by (rule first)
  qed
  have A: "tags ! (i + 1) \<in> dom m \<and> tags ! i \<in> dom m
          \<longrightarrow> (\<exists>fs. get_latent_features t words start beam i = Inr fs)"
  proof
    assume "tags ! (i + 1) \<in> dom m \<and> tags ! i \<in> dom m"
    then show "\<exists>fs. get_latent_features t words start beam i = Inr fs"
      using both by (elim conjE)
  qed
  have B: "tags ! (i + 1) \<notin> dom m \<or> tags ! i \<notin> dom m
          \<longrightarrow> get_latent_features t words start beam i = Inl KeyError"
  proof
    assume "tags ! (i + 1) \<notin> dom m \<or> tags ! i \<notin> dom m"
    then show "get_latent_features t words start beam i = Inl KeyError"
    proof
      assume "tags ! (i + 1) \<notin> dom m"
      then show ?thesis by (rule first)
    next
      assume "tags ! i \<notin> dom m"
      then show ?thesis by (rule second)
    qed
  qed
  from A B show ?thesis
    unfolding tags_def by (rule conjI)
qed

text \<open>
  A history whose tag at position \<open>j - 2\<close> is not in the mapping makes the call fail; at
  the start of a sentence the two boundary tags are consulted, which \<^verbatim>\<open>__init__\<close>
  entered into the mapping.
\<close>

theorem latent_features_consulted_tags_witness:
  "get_latent_features (bare_tagger no_match (Some [''B'' \<mapsto> ''X'', ''C'' \<mapsto> ''Y'']))
       [''a'', ''b'', ''c'', ''d''] 0 [''A'', ''B'', ''C''] 2 = Inl KeyError
   \<and> (\<exists>fs. get_latent_features (bare_tagger no_match (Some [''B'' \<mapsto> ''X'', ''C'' \<mapsto> ''Y'']))
       [''a'', ''b'', ''c'', ''d''] 0 [] 0 = Inr fs)"
proof -
  let ?m = "[''B'' \<mapsto> ''X'', ''C'' \<mapsto> ''Y'', ''<START-2>'' \<mapsto> ''<START>'',
             ''<START-1>'' \<mapsto> ''<START>'']"
  let ?t = "bare_tagger no_match (Some [''B'' \<mapsto> ''X'', ''C'' \<mapsto> ''Y''])"
  have m: "mapping ?t = Some ?m"
    by (simp add: bare_tagger_def init_mapping_def)
  have "get_latent_features ?t [''a'', ''b'', ''c'', ''d''] 0 [''A'', ''B'', ''C''] 2 = Inl KeyError"
    using latent_features_consulted_tags [OF m, of 2 "[''A'', ''B'', ''C'']" 0 "[''a'', ''b'', ''c'', ''d'']"]
    by simp
  moreover have "\<exists>fs. get_latent_features ?t [''a'', ''b'', ''c'', ''d''] 0 [] 0 = Inr fs"
    using latent_features_consulted_tags [OF m, of 0 "[]" 0 "[''a'', ''b'', ''c'', ''d'']"]
    by simp
  ultimately show ?thesis by (rule conjI)
qed

text \<open>
  The claim as the spec states it speaks of any tag of the history. A tag further back
  than two positions is not consulted: with the tag \<open>A\<close> of the history missing from the
  mapping, the call at \<open>i = 3\<close> returns its features.
\<close>

theorem latent_features_old_tag_counterexample:
  "''A'' \<in> set [''A'', ''B'', ''C'']
   \<and> map_option (\<lambda>m. m ''A'')
        (mapping (bare_tagger no_match (Some [''B'' \<mapsto> ''X'', ''C'' \<mapsto> ''Y'']))) = Some None
   \<and> get_latent_features (bare_tagger no_match (Some [''B'' \<mapsto> ''X'', ''C'' \<mapsto> ''Y'']))
        [''a'', ''b'', ''c'', ''d''] 0 [''A'', ''B'', ''C''] 3
      = Inr [''P1_word, P1_pos: c, C'', ''P1_word, P1_wc: c, Y'',
             ''P2_word, P2_pos: b, B'', ''P2_word, P2_wc: b, X'', ''P1_pos: C'',
             ''P2_pos: B'', ''P2_pos, P1_pos: B, C'', ''P1_pos, W_word: C, d'',
             ''P1_wc: Y'', ''P2_wc: X'', ''P2_wc, P1_wc: X, Y'',
             ''P1_wc, W_word: Y, d'']"
  by (simp add: get_latent_features_def bare_tagger_def init_mapping_def getitem_def
      lookup_def bind_err_def Let_def)

section \<open>The flags of an e-mail address\<close>

lemma email_don: "search True email_re ''don@mail.com'' = False"
  by code_simp

lemma url_don: "search True url_re ''don@mail.com'' = True"
  by code_simp

lemma in_set_flag_eq: "f \<in> set (flag b pre name) \<longleftrightarrow> b \<and> f = pre @ name"
  by (auto simp: flag_def)

text \<open>
  Claim C4 on the code. With the patterns of lines 39 and 41 as \<^verbatim>\<open>re\<close> compiles them,
  the flags of \<open>don@mail.com\<close> do not hold \<open>isemail\<close> (the pattern asks for the characters
  \<^verbatim>\<open>%\<close>, \<^verbatim>\<open>-\<close> and \<^verbatim>\<open>]\<close>) and do hold \<open>isurl\<close> (the second alternative of the URL
  pattern is not anchored at the start and matches \<open>mail.com\<close>). The claim asks for the
  opposite on both flags.
\<close>

theorem flags_of_don_at_mail_com:
  "''W_isemail'' \<notin> set (word_flags (t\<lparr>email := search True email_re, url := search True url_re\<rparr>)
                            ''don@mail.com'' ''W'')
   \<and> ''W_isurl'' \<in> set (word_flags (t\<lparr>email := search True email_re, url := search True url_re\<rparr>)
                            ''don@mail.com'' ''W'')"
  by (simp add: word_flags_def in_set_flag_eq email_don url_don)

section \<open>Saving the model\<close>

lemma write_all_append:
  "write_all (xs @ ys) =
     (case write_all xs of
        (Inr u, out) \<Rightarrow> (fst (write_all ys), out @ snd (write_all ys))
      | (Inl e, out) \<Rightarrow> (Inl e, out))"
  by (induction xs rule: write_all.induct) (simp_all split: prod.split sum.split)

lemma suffix_append_short:
  assumes "length xs \<le> length zs"
  shows "suffix xs (ys @ zs) \<longleftrightarrow> suffix xs zs"
proof
  assume "suffix xs (ys @ zs)"
  then consider "suffix xs zs" | xs' where "suffix xs' ys" and "xs = xs' @ zs"
    by (auto simp: suffix_append)
  then show "suffix xs zs"
  proof cases
    case 1
    then show ?thesis .
  next
    case 2
    with assms have "xs = zs" by simp
    then show ?thesis by simp
  qed
next
  assume "suffix xs zs"
  then show "suffix xs (ys @ zs)"
    by (simp add: suffix_append)
qed

lemma write_all_step:
  "write_all (Inr a # x # steps) =
     (case x of
        Inl e \<Rightarrow> (Inl e, a)
      | Inr s \<Rightarrow> (fst (write_all steps), a @ s @ snd (write_all steps)))"
  by (cases x) simp_all

lemma header_step:
  assumes "suffix ('','' @ nl) (snd (write_all steps)) \<or> suffix (''['' @ nl) (snd (write_all steps))"
    and "\<And>u. fst (write_all steps) = Inr u \<Longrightarrow> suffix (''['' @ nl) (snd (write_all steps))"
    and "a = '','' @ nl \<or> a = ''['' @ nl"
  shows "suffix ('','' @ nl) (snd (write_all (Inr a # x # steps)))
           \<or> suffix (''['' @ nl) (snd (write_all (Inr a # x # steps)))"
    and "\<And>u. fst (write_all (Inr a # x # steps)) = Inr u
           \<Longrightarrow> suffix (''['' @ nl) (snd (write_all (Inr a # x # steps)))"
proof -
  have len: "2 \<le> length (snd (write_all steps))"
    using assms(1) by (auto simp: suffix_def nl_def)
  show "suffix ('','' @ nl) (snd (write_all (Inr a # x # steps)))
           \<or> suffix (''['' @ nl) (snd (write_all (Inr a # x # steps)))"
  proof (cases x)
    case (Inl e)
    then show ?thesis
      using assms(3) by (auto simp: write_all_step)
  next
    case (Inr s)
    have "suffix zs (a @ s @ snd (write_all steps)) \<longleftrightarrow> suffix zs (snd (write_all steps))"
      if "length zs = 2" for zs :: string
      using that len suffix_append_short [of zs "snd (write_all steps)" "a @ s"] by simp
    then show ?thesis
      using assms(1) Inr by (simp add: write_all_step nl_def)
  qed
  show "suffix (''['' @ nl) (snd (write_all (Inr a # x # steps)))"
    if "fst (write_all (Inr a # x # steps)) = Inr u" for u
  proof (cases x)
    case (Inl e)
    then show ?thesis
      using that by (simp add: write_all_step)
  next
    case (Inr s)
    with that have "fst (write_all steps) = Inr u"
      by (simp add: write_all_step)
    then have "suffix (''['' @ nl) (snd (write_all steps))"
      by (rule assms(2))
    moreover have "suffix (''['' @ nl) (a @ s @ snd (write_all steps))
        \<longleftrightarrow> suffix (''['' @ nl) (snd (write_all steps))"
      using len suffix_append_short [of "''['' @ nl" "snd (write_all steps)" "a @ s"]
      by (simp add: nl_def)
    ultimately show ?thesis
      using Inr by (simp add: write_all_step)
  qed
qed


lemma save_header_text:
  "(suffix ('','' @ nl) (snd (write_all (save_header lib m features)))
      \<or> suffix (''['' @ nl) (snd (write_all (save_header lib m features))))
   \<and> (\<forall>u. fst (write_all (save_header lib m features)) = Inr u
          \<longrightarrow> suffix (''['' @ nl) (snd (write_all (save_header lib m features))))"
proof -
  let ?Q = "\<lambda>steps. (suffix ('','' @ nl) (snd (write_all steps))
                      \<or> suffix (''['' @ nl) (snd (write_all steps)))
                 \<and> (\<forall>u. fst (write_all steps) = Inr u
                        \<longrightarrow> suffix (''['' @ nl) (snd (write_all steps)))"
  have step: "?Q (Inr a # x # steps)" if "?Q steps" and "a = '','' @ nl \<or> a = ''['' @ nl"
    for a x steps
  proof (intro conjI allI impI)
    show "suffix ('','' @ nl) (snd (write_all (Inr a # x # steps)))
           \<or> suffix (''['' @ nl) (snd (write_all (Inr a # x # steps)))"
      using that by (intro header_step(1)) simp_all
    show "suffix (''['' @ nl) (snd (write_all (Inr a # x # steps)))"
      if "fst (write_all (Inr a # x # steps)) = Inr u" for u
      using that \<open>?Q steps\<close> \<open>a = '','' @ nl \<or> a = ''['' @ nl\<close>
      by (intro header_step(2) [of steps a x u]) simp_all
  qed
  have "?Q [Inr ('','' @ nl), Inr (''['' @ nl)]"
    by (simp add: nl_def suffix_Cons)
  then have "?Q (Inr ('','' @ nl) # json_names lib features
                  # [Inr ('','' @ nl), Inr (''['' @ nl)])"
    by (rule step) simp
  then have "?Q (Inr ('','' @ nl) # Inr (str_text lib (m_target_size m))
                  # Inr ('','' @ nl) # json_names lib features
                  # [Inr ('','' @ nl), Inr (''['' @ nl)])"
    by (rule step) simp
  then have "?Q (Inr ('','' @ nl) # json_text lib (m_target_mapping m)
                  # Inr ('','' @ nl) # Inr (str_text lib (m_target_size m))
                  # Inr ('','' @ nl) # json_names lib features
                  # [Inr ('','' @ nl), Inr (''['' @ nl)])"
    by (rule step) simp
  then have "?Q (Inr ('','' @ nl) # json_text lib (m_word_to_vec m)
                  # Inr ('','' @ nl) # json_text lib (m_target_mapping m)
                  # Inr ('','' @ nl) # Inr (str_text lib (m_target_size m))
                  # Inr ('','' @ nl) # json_names lib features
                  # [Inr ('','' @ nl), Inr (''['' @ nl)])"
    by (rule step) simp
  then have "?Q (Inr ('','' @ nl) # json_text lib (m_brown_clusters m)
                  # Inr ('','' @ nl) # json_text lib (m_word_to_vec m)
                  # Inr ('','' @ nl) # json_text lib (m_target_mapping m)
                  # Inr ('','' @ nl) # Inr (str_text lib (m_target_size m))
                  # Inr ('','' @ nl) # json_names lib features
                  # [Inr ('','' @ nl), Inr (''['' @ nl)])"
    by (rule step) simp
  then have "?Q (Inr ('','' @ nl) # json_text lib (m_mapping m)
                  # Inr ('','' @ nl) # json_text lib (m_brown_clusters m)
                  # Inr ('','' @ nl) # json_text lib (m_word_to_vec m)
                  # Inr ('','' @ nl) # json_text lib (m_target_mapping m)
                  # Inr ('','' @ nl) # Inr (str_text lib (m_target_size m))
                  # Inr ('','' @ nl) # json_names lib features
                  # [Inr ('','' @ nl), Inr (''['' @ nl)])"
    by (rule step) simp
  then have "?Q (Inr ('','' @ nl) # json_text lib (m_lexicon m)
                  # Inr ('','' @ nl) # json_text lib (m_mapping m)
                  # Inr ('','' @ nl) # json_text lib (m_brown_clusters m)
                  # Inr ('','' @ nl) # json_text lib (m_word_to_vec m)
                  # Inr ('','' @ nl) # json_text lib (m_target_mapping m)
                  # Inr ('','' @ nl) # Inr (str_text lib (m_target_size m))
                  # Inr ('','' @ nl) # json_names lib features
                  # [Inr ('','' @ nl), Inr (''['' @ nl)])"
    by (rule step) simp
  then have "?Q (Inr (''['' @ nl) # json_text lib (m_vocabulary m)
                  # Inr ('','' @ nl) # json_text lib (m_lexicon m)
                  # Inr ('','' @ nl) # json_text lib (m_mapping m)
                  # Inr ('','' @ nl) # json_text lib (m_brown_clusters m)
                  # Inr ('','' @ nl) # json_text lib (m_word_to_vec m)
                  # Inr ('','' @ nl) # json_text lib (m_target_mapping m)
                  # Inr ('','' @ nl) # Inr (str_text lib (m_target_size m))
                  # Inr ('','' @ nl) # json_names lib features
                  # [Inr ('','' @ nl), Inr (''['' @ nl)])"
    by (rule step) simp
  then show ?thesis
    unfolding save_header_def .
qed


lemma suffix_same_length:
  assumes "suffix xs zs" and "suffix ys zs" and "length xs = length ys"
  shows "xs = ys"
proof -
  from assms(1) obtain a where "zs = a @ xs"
    by (auto simp: suffix_def)
  moreover from assms(2) obtain b where "zs = b @ ys"
    by (auto simp: suffix_def)
  ultimately have "a @ xs = b @ ys"
    by simp
  with assms(3) show ?thesis
    by simp
qed

lemma save_no_weights:
  "save lib (m\<lparr>m_weights := []\<rparr>) =
     (case write_all (save_header lib m []) of
        (Inr u, out) \<Rightarrow> (Inl IndexError, out @ quote)
      | (Inl e, out) \<Rightarrow> (Inl e, out))"
proof -
  have "save_header lib (m\<lparr>m_weights := []\<rparr>) [] = save_header lib m []"
    by (simp add: save_header_def)
  then show ?thesis
    by (simp add: save_def write_all_append last_item_def bind_err_def
        split: prod.split sum.split)
qed

text \<open>
  With at least one feature, and values that JSON can hold, \<^verbatim>\<open>save\<close> returns and the
  file ends with the closing bracket of the list of weights and that of the model.
\<close>

lemma write_all_append_ok:
  "fst (write_all xs) = Inr () \<Longrightarrow>
     write_all (xs @ ys) = (fst (write_all ys), snd (write_all xs) @ snd (write_all ys))"
  by (cases "write_all xs") (auto simp: write_all_append)

lemma write_all_no_error:
  assumes "\<And>s. s \<in> set steps \<Longrightarrow> \<exists>t. s = Inr t"
  shows "fst (write_all steps) = Inr ()"
  using assms
proof (induction steps rule: write_all.induct)
  case 1
  then show ?case by simp
next
  case (2 e steps)
  from "2.prems" [of "Inl e"] show ?case by simp
next
  case (3 s steps)
  then show ?case by simp
qed

lemma weight_text_known:
  assumes "feat \<in> fst ` set (m_weights m)"
  shows "\<exists>t. weight_text lib m feat = Inr t"
proof -
  from assms obtain a where "map_of (m_weights m) feat = Some a"
    by (cases "map_of (m_weights m) feat") (auto simp: map_of_eq_None_iff)
  then show ?thesis
    by (simp add: weight_text_def lookup_def bind_err_def)
qed

lemma save_with_weights:
  assumes "m_weights m \<noteq> []"
    and "fst (write_all (save_header lib m (sort (map fst (m_weights m))))) = Inr ()"
  shows "fst (save lib m) = Inr ()"
    and "suffix (quote @ nl @ '']'' @ nl @ '']'' @ nl) (snd (save lib m))"
proof -
  define features where "features = sort (map fst (m_weights m))"
  define rows where "rows = concat (map (\<lambda>feat. [Inr quote, weight_text lib m feat,
                                                Inr (quote @ '','' @ nl)]) (butlast features))"
  define final where "final = [Inr quote, bind_err (last_item features) (weight_text lib m),
                                Inr (quote @ nl @ '']'' @ nl), Inr ('']'' @ nl)]"
  have ne: "features \<noteq> []"
    using assms(1) by (auto simp: features_def dest: arg_cong [of _ _ length])
  have mem: "feat \<in> fst ` set (m_weights m)" if "feat \<in> set features" for feat
    using that by (simp add: features_def)
  have "fst (write_all rows) = Inr ()"
  proof (rule write_all_no_error)
    fix s assume "s \<in> set rows"
    then obtain feat where "feat \<in> set (butlast features)"
      and "s \<in> set [Inr quote, weight_text lib m feat, Inr (quote @ '','' @ nl)]"
      unfolding rows_def set_concat set_map by blast
    then have "feat \<in> set (butlast features)"
      and "s = Inr quote \<or> s = weight_text lib m feat \<or> s = Inr (quote @ '','' @ nl)"
      by simp_all
    then show "\<exists>t. s = Inr t"
      using weight_text_known [OF mem, of feat lib] by (auto dest: in_set_butlastD)
  qed
  moreover obtain t where "weight_text lib m (last features) = Inr t"
    using weight_text_known [OF mem, of "last features" lib] ne by auto
  ultimately have rows: "fst (write_all rows) = Inr ()"
    and final: "write_all final = (Inr (), quote @ t @ (quote @ nl @ '']'' @ nl) @ '']'' @ nl)"
    using ne by (simp_all add: final_def last_item_def bind_err_def)
  have "save lib m = write_all (save_header lib m features @ rows @ final)"
    unfolding save_def Let_def features_def rows_def final_def ..
  also have "\<dots> = (fst (write_all (rows @ final)),
                     snd (write_all (save_header lib m features)) @ snd (write_all (rows @ final)))"
    using assms(2) unfolding features_def by (rule write_all_append_ok)
  also have "write_all (rows @ final) = (fst (write_all final), snd (write_all rows) @ snd (write_all final))"
    using rows by (rule write_all_append_ok)
  finally have "save lib m =
      (Inr (), snd (write_all (save_header lib m features)) @ snd (write_all rows)
                 @ quote @ t @ (quote @ nl @ '']'' @ nl) @ '']'' @ nl)"
    by (simp add: final)
  then show "fst (save lib m) = Inr ()"
    and "suffix (quote @ nl @ '']'' @ nl @ '']'' @ nl) (snd (save lib m))"
    by (simp_all add: suffix_def)
qed

text \<open>
  Claim C9. On a model with no feature, \<^verbatim>\<open>save\<close> always raises: if the eight values
  of lines 153-170 are written, it writes the opening quote of line 176 and then
  \<^verbatim>\<open>features[-1]\<close> of line 177 raises \<^verbatim>\<open>IndexError\<close>; otherwise a
  \<^verbatim>\<open>json.dumps\<close> has raised before. In both cases the file is left without the closing
  bracket that ends a complete file.
\<close>

theorem save_empty_weights:
  "save lib (m\<lparr>m_weights := []\<rparr>) =
     (case write_all (save_header lib m []) of
        (Inr u, out) \<Rightarrow> (Inl IndexError, out @ quote)
      | (Inl e, out) \<Rightarrow> (Inl e, out))
   \<and> (\<exists>e. fst (save lib (m\<lparr>m_weights := []\<rparr>)) = Inl e)
   \<and> \<not> suffix ('']'' @ nl) (snd (save lib (m\<lparr>m_weights := []\<rparr>)))"
proof (intro conjI)
  show eq: "save lib (m\<lparr>m_weights := []\<rparr>) =
     (case write_all (save_header lib m []) of
        (Inr u, out) \<Rightarrow> (Inl IndexError, out @ quote)
      | (Inl e, out) \<Rightarrow> (Inl e, out))"
    by (rule save_no_weights)
  obtain r out where w: "write_all (save_header lib m []) = (r, out)"
    by (cases "write_all (save_header lib m [])")
  show "\<exists>e. fst (save lib (m\<lparr>m_weights := []\<rparr>)) = Inl e"
    unfolding eq w by (cases r) simp_all
  have ends: "suffix ('','' @ nl) out \<or> suffix (''['' @ nl) out"
    using save_header_text [of lib m "[]"] w by simp
  show "\<not> suffix ('']'' @ nl) (snd (save lib (m\<lparr>m_weights := []\<rparr>)))"
  proof (cases r)
    case (Inl e)
    have "\<not> suffix ('']'' @ nl) out"
    proof
      assume "suffix ('']'' @ nl) out"
      with ends have "'']'' @ nl = '','' @ nl \<or> '']'' @ nl = ''['' @ nl"
        by (auto dest: suffix_same_length simp: nl_def)
      then show False
        by simp
    qed
    then show ?thesis
      unfolding eq w using Inl by simp
  next
    case (Inr u)
    have "\<not> suffix ('']'' @ nl) (out @ quote)"
      by (auto simp: nl_def quote_def)
    then show ?thesis
      unfolding eq w using Inr by simp
  qed
qed

end
